(* ===== verification/Prelude.thy ===== *)
theory Prelude
  imports Main "HOL-Library.Word" "HOL-Library.Signed_Division" "HOL-Library.Sublist" "HOL-Library.Multiset"
begin

text \<open>
  The vocabulary every component shares.  Go's ways of not returning (a panic, an exit of the
  process through \<open>log.Fatal\<close> or \<open>common.Fatal\<close>, an operation that blocks for good) are the values of
  \<open>stop\<close>; a computation that may end in one of them has type \<open>'a go\<close>.  Go's \<open>error\<close> results are
  options of their message (\<open>None\<close> is \<open>nil\<close>).  Go strings are byte sequences, hence lists of
  \<open>char\<close>.  A \<open>range\<close> over a Go map visits the keys in an unspecified order: an operation that ranges
  over a map takes the enumeration of the keys as an argument, and \<open>ranges\<close> says what the language
  promises of it.
\<close>

named_theorems go_simps "rewriting of go computations and of the Go string functions"
named_theorems op_simps "closed forms of the components' operations on well-formed states"

section \<open>Outcomes of a computation\<close>

type_synonym int64 = "64 word"
type_synonym err = "string option"

datatype stop = Panic string | Exit string | Blocked

type_synonym 'a go = "stop + 'a"

definition go_bind :: "'a go \<Rightarrow> ('a \<Rightarrow> 'b go) \<Rightarrow> 'b go" where
  "go_bind m f = (case m of Inl e \<Rightarrow> Inl e | Inr x \<Rightarrow> f x)"

lemma go_bind_Inl [simp]: "go_bind (Inl e) f = Inl e"
  by (simp add: go_bind_def)

lemma go_bind_Inr [simp]: "go_bind (Inr x) f = f x"
  by (simp add: go_bind_def)

lemma go_bind_eq_Inr [go_simps]:
  "go_bind m f = Inr y \<longleftrightarrow> (\<exists>x. m = Inr x \<and> f x = Inr y)"
  by (cases m) auto

lemma go_bind_eq_Inl:
  "go_bind m f = Inl e \<longleftrightarrow> m = Inl e \<or> (\<exists>x. m = Inr x \<and> f x = Inl e)"
  by (cases m) auto

lemma go_bind_assoc: "go_bind (go_bind m f) g = go_bind m (\<lambda>x. go_bind (f x) g)"
  by (cases m) auto

lemma go_bind_split:
  "P (go_bind m f) \<longleftrightarrow> (\<forall>e. m = Inl e \<longrightarrow> P (Inl e)) \<and> (\<forall>x. m = Inr x \<longrightarrow> P (f x))"
  by (cases m) auto

text \<open>A loop whose body may stop: \<open>for _, x := range xs { body }\<close>.\<close>

fun go_fold :: "('a \<Rightarrow> 's \<Rightarrow> 's go) \<Rightarrow> 'a list \<Rightarrow> 's \<Rightarrow> 's go" where
  "go_fold f [] s = Inr s"
| "go_fold f (x # xs) s = go_bind (f x s) (go_fold f xs)"

lemma go_fold_append: "go_fold f (xs @ ys) s = go_bind (go_fold f xs s) (go_fold f ys)"
  by (induction xs arbitrary: s) (auto simp: go_bind_def split: sum.split)

text \<open>An invariant of a loop, relative to what it has visited.\<close>

lemma go_fold_invariant:
  assumes "go_fold f xs s = Inr s'" and "I [] s"
    and "\<And>ys x s s'. I ys s \<Longrightarrow> x \<in> set xs \<Longrightarrow> f x s = Inr s' \<Longrightarrow> I (ys @ [x]) s'"
  shows "I xs s'"
  using assms
proof (induction xs arbitrary: s' rule: rev_induct)
  case (snoc x xs)
  then obtain s1 where "go_fold f xs s = Inr s1" "f x s1 = Inr s'"
    by (auto simp: go_fold_append go_bind_eq_Inr)
  with snoc show ?case by auto
qed simp

text \<open>A loop stops only if one of its steps does.\<close>

lemma go_fold_total:
  assumes "I s" and "\<And>x s. x \<in> set xs \<Longrightarrow> I s \<Longrightarrow> \<exists>s'. f x s = Inr s' \<and> I s'"
  shows "\<exists>s'. go_fold f xs s = Inr s' \<and> I s'"
  using assms
proof (induction xs arbitrary: s)
  case (Cons x xs)
  then obtain s1 where "f x s = Inr s1" "I s1" by fastforce
  with Cons show ?case by simp
qed simp

text \<open>A Go slice expression \<open>s[:n]\<close> panics when the string is shorter than \<open>n\<close>.\<close>

definition str_upto :: "nat \<Rightarrow> string \<Rightarrow> string go" where
  "str_upto n s =
     (if n \<le> length s then Inr (take n s) else Inl (Panic ''slice bounds out of range''))"

lemma str_upto_Inr [go_simps]: "str_upto n s = Inr r \<longleftrightarrow> n \<le> length s \<and> r = take n s"
  by (auto simp: str_upto_def)

lemma str_upto_short [go_simps]:
  "length s < n \<Longrightarrow> str_upto n s = Inl (Panic ''slice bounds out of range'')"
  by (simp add: str_upto_def)

lemma str_upto_long [go_simps]: "n \<le> length s \<Longrightarrow> str_upto n s = Inr (take n s)"
  by (simp add: str_upto_def)

section \<open>Machine integers\<close>

text \<open>
  \<open>int64\<close>, and \<open>int\<close> on the 64-bit machines the program is built for.  Division and remainder
  truncate towards zero.
\<close>

definition i64_rem :: "int64 \<Rightarrow> int64 \<Rightarrow> int64" where
  "i64_rem a b = word_of_int (sint a smod sint b)"

definition i64_quot :: "int64 \<Rightarrow> int64 \<Rightarrow> int64" where
  "i64_quot a b = word_of_int (sint a sdiv sint b)"

abbreviation in_i64 :: "int \<Rightarrow> bool" where
  "in_i64 i \<equiv> - (2 ^ 63) \<le> i \<and> i < 2 ^ 63"

lemma sint_i64: "in_i64 i \<Longrightarrow> sint (word_of_int i :: int64) = i"
  by (simp add: sint_sbintrunc' signed_take_bit_int_eq_self)

lemma i64_in: "in_i64 (sint (a::int64))"
  using sint_greater_eq [of a] sint_less [of a] by simp

lemma sint_i64_add: "in_i64 (sint a + sint b) \<Longrightarrow> sint (a + b :: int64) = sint a + sint b"
  by (simp add: sint_word_add signed_take_bit_int_eq_self)

lemma sint_i64_sub: "in_i64 (sint a - sint b) \<Longrightarrow> sint (a - b :: int64) = sint a - sint b"
  using sint_i64 [of "sint a - sint b"] by simp

lemma sint_i64_mul: "in_i64 (sint a * sint b) \<Longrightarrow> sint (a * b :: int64) = sint a * sint b"
  by (simp add: sint_word_mult signed_take_bit_int_eq_self)

lemma sint_i64_quot:
  assumes "0 \<le> sint a" and "0 < sint b"
  shows "sint (i64_quot a b) = sint a div sint b"
proof -
  have "0 \<le> sint a div sint b" "sint a div sint b \<le> sint a"
    using assms int_div_less_self [of "sint a" "sint b"] zdiv_mono2 [of "sint a" 1 "sint b"]
    by (simp_all add: pos_imp_zdiv_nonneg_iff)
  then have "sint (word_of_int (sint a div sint b) :: int64) = sint a div sint b"
    using i64_in [of a] by (intro sint_i64) simp
  moreover have "sint a sdiv sint b = sint a div sint b"
    using assms by (cases "sint a = 0") (simp_all add: signed_divide_int_def)
  ultimately show ?thesis by (simp add: i64_quot_def)
qed

lemma sint_i64_of_nat: "n < 2 ^ 63 \<Longrightarrow> sint (of_nat n :: int64) = int n"
  using sint_i64 [of "int n"] by simp

section \<open>Maps and their iteration\<close>

definition ranges :: "'k list \<Rightarrow> ('k \<rightharpoonup> 'v) \<Rightarrow> bool" where
  "ranges ks m \<longleftrightarrow> distinct ks \<and> set ks = dom m"

definition in_map :: "'k \<Rightarrow> ('k \<rightharpoonup> 'v) \<Rightarrow> bool" where
  "in_map k m \<longleftrightarrow> (case m k of None \<Rightarrow> False | Some _ \<Rightarrow> True)"

lemma in_map_dom [simp]: "in_map k m \<longleftrightarrow> k \<in> dom m"
  by (auto simp: in_map_def split: option.splits)

lemma ranges_empty [simp]: "ranges [] Map.empty"
  by (simp add: ranges_def)

lemma ranges_upd: "ranges ks m \<Longrightarrow> k \<notin> set ks \<Longrightarrow> ranges (k # ks) (m(k \<mapsto> v))"
  by (auto simp: ranges_def)

text \<open>
  The order in which a \<open>range\<close> visits a map whose keys lie in \<open>ks\<close>: any rearrangement \<open>perm\<close> of
  the keys present.
\<close>

definition range_keys :: "('k list \<Rightarrow> 'k list) \<Rightarrow> 'k list \<Rightarrow> ('k \<rightharpoonup> 'v) \<Rightarrow> 'k list" where
  "range_keys perm ks m = perm (filter (\<lambda>k. in_map k m) ks)"

definition rearranges :: "('k list \<Rightarrow> 'k list) \<Rightarrow> bool" where
  "rearranges perm \<longleftrightarrow> (\<forall>xs. mset (perm xs) = mset xs)"

lemma rearranges_set: "rearranges perm \<Longrightarrow> set (perm xs) = set xs"
  by (metis rearranges_def mset_eq_setD)

lemma rearranges_rev [simp]: "rearranges rev"
  by (simp add: rearranges_def)

lemma set_range_keys [simp]:
  "rearranges perm \<Longrightarrow> set (range_keys perm ks m) = set ks \<inter> dom m"
  by (auto simp: range_keys_def rearranges_set)

text \<open>The loops \<open>for k := range ks { m[k] = v }\<close> and \<open>for k := range ks { delete(m, k) }\<close>.\<close>

definition set_keys :: "'v \<Rightarrow> 'k list \<Rightarrow> ('k \<rightharpoonup> 'v) \<Rightarrow> ('k \<rightharpoonup> 'v)" where
  "set_keys v ks m = fold (\<lambda>k m. m(k \<mapsto> v)) ks m"

definition delete_keys :: "'k list \<Rightarrow> ('k \<rightharpoonup> 'v) \<Rightarrow> ('k \<rightharpoonup> 'v)" where
  "delete_keys ks m = fold (\<lambda>k m. m(k := None)) ks m"

lemma set_keys_apply [simp]: "set_keys v ks m k = (if k \<in> set ks then Some v else m k)"
  unfolding set_keys_def by (induction ks arbitrary: m) auto

lemma delete_keys_apply [simp]: "delete_keys ks m k = (if k \<in> set ks then None else m k)"
  unfolding delete_keys_def by (induction ks arbitrary: m) auto

lemma dom_set_keys [simp]: "dom (set_keys v ks m) = set ks \<union> dom m"
  by (auto simp: dom_def)

lemma delete_keys_restrict: "delete_keys ks m = m |` (- set ks)"
  by (auto simp: fun_eq_iff restrict_map_def)

lemma find_SomeD: "find P xs = Some x \<Longrightarrow> x \<in> set xs \<and> P x"
  by (auto simp: find_Some_iff)

section \<open>Strings\<close>

definition HasPrefix :: "string \<Rightarrow> string \<Rightarrow> bool" where
  "HasPrefix s p \<longleftrightarrow> take (length p) s = p"

lemma HasPrefix_iff [go_simps]: "HasPrefix s p \<longleftrightarrow> (\<exists>r. s = p @ r)"
  by (metis HasPrefix_def append_eq_conv_conj append_take_drop_id)

lemma HasPrefix_append [simp]: "HasPrefix (p @ r) p"
  by (simp add: HasPrefix_iff)

lemma HasPrefix_refl [simp]: "HasPrefix p p"
  by (simp add: HasPrefix_def)

lemma HasPrefix_eval:
  "HasPrefix s []" "\<not> HasPrefix [] (d # p)" "HasPrefix (c # s) (d # p) \<longleftrightarrow> c = d \<and> HasPrefix s p"
  by (simp_all add: HasPrefix_def)

text \<open>The decimal rendering of \<open>%d\<close> and \<open>%v\<close>.\<close>

definition digit :: "nat \<Rightarrow> char" where
  "digit d = char_of (48 + d)"

fun nat_dec :: "nat \<Rightarrow> string" where
  "nat_dec n = (if n < 10 then [digit n] else nat_dec (n div 10) @ [digit (n mod 10)])"

declare nat_dec.simps [simp del]

definition int_dec :: "int \<Rightarrow> string" where
  "int_dec i = (if i < 0 then CHR ''-'' # nat_dec (nat (- i)) else nat_dec (nat i))"

definition i64_dec :: "int64 \<Rightarrow> string" where
  "i64_dec w = int_dec (sint w)"

lemma nat_dec_nonempty [simp]: "nat_dec n \<noteq> []"
  by (subst nat_dec.simps) simp

end
