(* ===== verification/Seeker.thy ===== *)
theory Seeker
  imports Prelude
begin

text \<open>
  \<open>apptail/util/seeker.go\<close>: the wrapper that lets a tailer seek in a docker log stream.  The
  goroutine \<open>Drain\<close> copies the stream into a buffer; readers wait on a condition variable until the
  buffer has data.  \<open>Seek\<close> is a function on the buffer; the goroutines are a step relation, one step
  per stretch of code between two points where another goroutine may run.
\<close>

section \<open>Seek\<close>

definition MaxInt :: int64 where
  "MaxInt = drop_bit 1 (- 1)" \<comment> \<open>(^uint(0)) >> 1\<close>

text \<open>\<open>bytes.Buffer.Next(n)\<close> drops at most what there is.\<close>

definition buffer_Next :: "int64 \<Rightarrow> string \<Rightarrow> string" where
  "buffer_Next n b = drop (nat (sint n)) b"

text \<open>The loop \<open>for discard > 0\<close>; \<open>None\<close> would be a loop that never ends.\<close>

partial_function (option) discard_loop :: "int64 \<Rightarrow> string \<Rightarrow> string option" where
  [code]: "discard_loop discard b =
     (if 0 <s discard
      then (let chunkSize = i64_rem discard MaxInt in discard_loop (discard - chunkSize) (buffer_Next chunkSize b))
      else Some b)"

definition Seek :: "int64 \<Rightarrow> int \<Rightarrow> string \<Rightarrow> ((int64 \<times> err) \<times> string) option" where
  "Seek offset whence b =
     (if whence \<noteq> 2 then Some ((0, Some (''Seeking to '' @ int_dec whence @ '' not implemented'')), b)
      else if 0 <s offset then
        Some ((0, Some (''Seeking past EOF to '' @ i64_dec offset @ '' not supported'')), b)
      else if offset = 0 then Some ((0, None), [])
      else map_option (Pair (0, None)) (discard_loop (of_nat (length b) + offset) b))"

text \<open>A buffer that fits in memory: its length is an \<open>int\<close>.\<close>

abbreviation fits :: "string \<Rightarrow> bool" where
  "fits b \<equiv> length b < 2 ^ 63"

lemma sint_MaxInt [simp]: "sint MaxInt = 2 ^ 63 - 1"
proof -
  have eq: "MaxInt = 9223372036854775807"
    by (simp add: MaxInt_def drop_bit_minus_one mask_eq_exp_minus_1)
  show ?thesis unfolding eq by simp
qed

lemma discard_loop_stops: "\<not> 0 <s d \<Longrightarrow> discard_loop d b = Some b"
  by (simp add: discard_loop.simps)

text \<open>One iteration is enough as long as the length to drop is below \<open>MaxInt\<close>.\<close>

lemma discard_loop_eq:
  assumes "sint d < 2 ^ 63 - 1"
  shows "discard_loop d b = Some (drop (nat (sint d)) b)"
proof (cases "0 <s d")
  case True
  then have "0 < sint d" by (simp add: word_sless_alt)
  with assms have "i64_rem d MaxInt = d"
    by (simp add: i64_rem_def signed_modulo_int_def sgn_if)
  with True show ?thesis
    by (simp add: discard_loop.simps [of d] discard_loop_stops buffer_Next_def)
next
  case False
  then show ?thesis by (simp add: discard_loop_stops word_sless_alt)
qed

lemma Seek_back:
  assumes "fits b" and "sint offset < 0"
  shows "Seek offset 2 b = Some ((0, None), drop (length b - nat (- sint offset)) b)"
proof -
  have l: "sint (of_nat (length b) :: int64) = int (length b)"
    using assms(1) by (simp add: sint_i64_of_nat)
  have "in_i64 (int (length b) + sint offset)"
    using assms i64_in [of offset] by auto
  then have d: "sint (of_nat (length b) + offset) = int (length b) + sint offset"
    by (simp add: sint_i64_add l)
  have "discard_loop (of_nat (length b) + offset) b =
      Some (drop (nat (int (length b) + sint offset)) b)"
    using assms by (subst discard_loop_eq) (auto simp: d)
  moreover have "nat (int (length b) + sint offset) = length b - nat (- sint offset)"
    using assms(2) by linarith
  moreover have "offset \<noteq> 0" "\<not> 0 <s offset"
    using assms(2) by (auto simp: word_sless_alt)
  ultimately show ?thesis by (simp add: Seek_def)
qed

section \<open>The goroutines\<close>

text \<open>
  \<open>src\<close> is what the successive calls \<open>reader.Read(buf)\<close> will return: bytes (at most \<open>len(buf)\<close> of
  them, possibly none) and an error.  \<open>bytes.Buffer.Write\<close> always returns a nil error.  \<open>held\<close> is the
  owner of \<open>available.L\<close>.  A goroutine is at the buffer from the step that begins a call of a method
  of the buffer to the step that ends it; another goroutine may run in between.  \<open>fed\<close> and \<open>got\<close> are
  history: all bytes written to the buffer, and all bytes \<open>Read\<close> has returned.
\<close>

datatype owner = Drainer | Reader nat

text \<open>
  \<open>Drain\<close>: in the read, in \<open>buffer.Write\<close>, in \<open>buffer.Len\<close>, about to lock, about to broadcast and
  unlock, after the loop.
\<close>

datatype drain_pc = Reading | Appending string err | Checking | Announcing | Broadcasting | Complete

text \<open>
  A caller of \<open>Read(p)\<close> with \<open>len(p) = n\<close>: in the test of the length, about to wait, waiting, waiting
  for the lock after a broadcast, in \<open>buffer.Read\<close>, in the second test; a caller of \<open>Seek\<close>.
\<close>

datatype read_pc =
    Away | Testing nat | Sleepy nat | Waiting nat | Woken nat | Taking nat | Rest | Seeking int64 int

record wrapper =
  src :: "(string \<times> err) list"
  buffer :: string
  held :: "owner option"
  drain :: drain_pc
  readers :: "nat \<Rightarrow> read_pc"
  torn :: bool
  fed :: string
  got :: string

definition WrapReadSeekClose :: "(string \<times> err) list \<Rightarrow> wrapper" where
  "WrapReadSeekClose reader =
     \<lparr>src = reader, buffer = [], held = None, drain = Reading, readers = (\<lambda>_. Away), torn = False,
      fed = [], got = []\<rparr>"

definition at_pc :: "nat \<Rightarrow> read_pc \<Rightarrow> wrapper \<Rightarrow> wrapper" where
  "at_pc i pc r = r\<lparr>readers := (readers r)(i := pc)\<rparr>"

definition Broadcast :: "wrapper \<Rightarrow> wrapper" where
  "Broadcast r = r\<lparr>readers := (\<lambda>i. case readers r i of Waiting n \<Rightarrow> Woken n | pc \<Rightarrow> pc)\<rparr>"

definition written :: "err \<Rightarrow> drain_pc" where
  "written err = (if err \<noteq> None then Complete else Checking)"

definition drain_read :: "string \<Rightarrow> err \<Rightarrow> wrapper \<Rightarrow> wrapper" where
  "drain_read bs err r =
     r\<lparr>src := tl (src r), drain := (if 0 < length bs then Appending bs err else written err)\<rparr>"

definition drain_write :: "string \<Rightarrow> err \<Rightarrow> wrapper \<Rightarrow> wrapper" where
  "drain_write bs err r = r\<lparr>buffer := buffer r @ bs, fed := fed r @ bs, drain := written err\<rparr>"

definition drain_check :: "wrapper \<Rightarrow> wrapper" where
  "drain_check r = r\<lparr>drain := (if 0 < length (buffer r) then Announcing else Reading)\<rparr>"

definition drain_lock :: "wrapper \<Rightarrow> wrapper" where
  "drain_lock r = r\<lparr>held := Some Drainer, drain := Broadcasting\<rparr>"

definition drain_broadcast :: "wrapper \<Rightarrow> wrapper" where
  "drain_broadcast r = (Broadcast r)\<lparr>held := None, drain := Reading\<rparr>"

definition read_lock :: "nat \<Rightarrow> nat \<Rightarrow> wrapper \<Rightarrow> wrapper" where
  "read_lock i n r = at_pc i (Testing n) (r\<lparr>held := Some (Reader i)\<rparr>)"

definition read_test :: "nat \<Rightarrow> nat \<Rightarrow> wrapper \<Rightarrow> wrapper" where
  "read_test i n r = at_pc i (if length (buffer r) < 1 then Sleepy n else Taking n) r"

definition read_wait :: "nat \<Rightarrow> nat \<Rightarrow> wrapper \<Rightarrow> wrapper" where
  "read_wait i n r = at_pc i (Waiting n) (r\<lparr>held := None\<rparr>)"

definition read_take :: "nat \<Rightarrow> nat \<Rightarrow> wrapper \<Rightarrow> wrapper" where
  "read_take i n r = at_pc i Rest (r\<lparr>buffer := drop n (buffer r), got := got r @ take n (buffer r)\<rparr>)"

definition read_rest :: "nat \<Rightarrow> wrapper \<Rightarrow> wrapper" where
  "read_rest i r = at_pc i Away ((if 0 < length (buffer r) then Broadcast r else r)\<lparr>held := None\<rparr>)"

datatype action = DrainStep | ReadCall nat | ReadStep nat | SeekCall nat | SeekStep nat

inductive astep :: "wrapper \<Rightarrow> action \<Rightarrow> wrapper \<Rightarrow> bool" where
  reads: "drain r = Reading \<Longrightarrow> src r = (bs, err) # rest \<Longrightarrow> astep r DrainStep (drain_read bs err r)"
| writes: "drain r = Appending bs err \<Longrightarrow> astep r DrainStep (drain_write bs err r)"
| checks: "drain r = Checking \<Longrightarrow> astep r DrainStep (drain_check r)"
| drain_locks: "drain r = Announcing \<Longrightarrow> held r = None \<Longrightarrow> astep r DrainStep (drain_lock r)"
| broadcasts: "drain r = Broadcasting \<Longrightarrow> astep r DrainStep (drain_broadcast r)"
| calls_Read: "readers r i = Away \<Longrightarrow> held r = None \<Longrightarrow> astep r (ReadCall i) (read_lock i n r)"
| tests: "readers r i = Testing n \<Longrightarrow> astep r (ReadStep i) (read_test i n r)"
| waits: "readers r i = Sleepy n \<Longrightarrow> astep r (ReadStep i) (read_wait i n r)"
| relocks: "readers r i = Woken n \<Longrightarrow> held r = None \<Longrightarrow> astep r (ReadStep i) (read_lock i n r)"
| takes: "readers r i = Taking n \<Longrightarrow> astep r (ReadStep i) (read_take i n r)"
| leaves: "readers r i = Rest \<Longrightarrow> astep r (ReadStep i) (read_rest i r)"
| calls_Seek: "readers r i = Away \<Longrightarrow> (whence :: int) = 2 \<Longrightarrow> \<not> 0 <s offset \<Longrightarrow>
    astep r (SeekCall i) (at_pc i (Seeking offset whence) r)"
| refused: "readers r i = Away \<Longrightarrow> (whence :: int) \<noteq> 2 \<or> 0 <s (offset :: int64) \<Longrightarrow> astep r (SeekCall i) r"
| seeks: "readers r i = Seeking offset whence \<Longrightarrow> Seek offset whence (buffer r) = Some (res, b) \<Longrightarrow>
    astep r (SeekStep i) (at_pc i Away (r\<lparr>buffer := b\<rparr>))"

inductive_cases astepE: "astep r a r'"

text \<open>
  A data race: two goroutines are at the buffer and one of them changes it.  From then on (\<open>torn\<close>) the
  buffer may hold anything whenever it is looked at.
\<close>

fun drain_at :: "drain_pc \<Rightarrow> bool" where
  "drain_at (Appending bs err) = True"
| "drain_at Checking = True"
| "drain_at _ = False"

fun reader_at :: "read_pc \<Rightarrow> bool" where
  "reader_at (Testing n) = True"
| "reader_at (Taking n) = True"
| "reader_at Rest = True"
| "reader_at (Seeking offset whence) = True"
| "reader_at _ = False"

fun reader_changes :: "read_pc \<Rightarrow> bool" where
  "reader_changes (Taking n) = True"
| "reader_changes (Seeking offset whence) = True"
| "reader_changes _ = False"

definition drain_changes :: "drain_pc \<Rightarrow> bool" where
  "drain_changes pc \<longleftrightarrow> drain_at pc \<and> pc \<noteq> Checking"

definition racing :: "wrapper \<Rightarrow> bool" where
  "racing r \<longleftrightarrow>
     (\<exists>i. drain_changes (drain r) \<and> reader_at (readers r i) \<or> drain_at (drain r) \<and> reader_changes (readers r i)) \<or>
     (\<exists>i j. i \<noteq> j \<and> reader_changes (readers r i) \<and> reader_at (readers r j))"

definition watched :: "wrapper \<Rightarrow> wrapper" where
  "watched r = r\<lparr>torn := torn r \<or> racing r\<rparr>"

inductive wstep :: "wrapper \<Rightarrow> action \<Rightarrow> wrapper \<Rightarrow> bool" where
  orderly: "\<not> torn r \<Longrightarrow> astep r a r' \<Longrightarrow> wstep r a (watched r')"
| broken: "torn r \<Longrightarrow> astep (r\<lparr>buffer := b\<rparr>) a r' \<Longrightarrow> wstep r a (r'\<lparr>buffer := b'\<rparr>)"

inductive wsteps :: "wrapper \<Rightarrow> action list \<Rightarrow> wrapper \<Rightarrow> bool" where
  wsteps_nil: "wsteps r [] r"
| wsteps_snoc: "wsteps r as r' \<Longrightarrow> wstep r' a r'' \<Longrightarrow> wsteps r (as @ [a]) r''"

inductive_cases wstepE: "wstep r a r'"

lemmas piece_defs = drain_read_def drain_write_def drain_check_def drain_lock_def drain_broadcast_def
  read_lock_def read_test_def read_wait_def read_take_def read_rest_def at_pc_def written_def

lemma Broadcast_simps [simp]:
  "buffer (Broadcast r) = buffer r" "drain (Broadcast r) = drain r" "fed (Broadcast r) = fed r"
  "got (Broadcast r) = got r" "src (Broadcast r) = src r" "held (Broadcast r) = held r"
  "torn (Broadcast r) = torn r" "readers (Broadcast r) i \<noteq> Waiting n"
  "readers (Broadcast r) i = Sleepy n \<longleftrightarrow> readers r i = Sleepy n"
  by (auto simp: Broadcast_def split: read_pc.splits)

lemma watched_simps [simp]:
  "buffer (watched r) = buffer r" "drain (watched r) = drain r" "fed (watched r) = fed r"
  "got (watched r) = got r" "src (watched r) = src r" "held (watched r) = held r"
  "readers (watched r) = readers r" "torn (watched r) \<longleftrightarrow> torn r \<or> racing r"
  by (simp_all add: watched_def)

lemma astep_torn [simp]: "astep r a r' \<Longrightarrow> torn r' = torn r"
  by (erule astepE) (auto simp: piece_defs)

section \<open>The lock\<close>

text \<open>The readers between \<open>Lock\<close> and \<open>Unlock\<close>.\<close>

fun inside :: "read_pc \<Rightarrow> bool" where
  "inside (Testing n) = True"
| "inside (Sleepy n) = True"
| "inside (Taking n) = True"
| "inside Rest = True"
| "inside _ = False"

definition locked :: "wrapper \<Rightarrow> bool" where
  "locked r \<longleftrightarrow> (\<forall>i. inside (readers r i) \<longleftrightarrow> held r = Some (Reader i)) \<and>
     (drain r = Broadcasting \<longleftrightarrow> held r = Some Drainer)"

lemma inside_Broadcast [simp]: "inside (readers (Broadcast r) i) = inside (readers r i)"
  by (simp add: Broadcast_def split: read_pc.split)

lemma locked_frame [simp]: "locked (r\<lparr>buffer := b\<rparr>) = locked r" "locked (watched r) = locked r"
  by (simp_all add: locked_def)

lemma locked_drain: "locked r \<Longrightarrow> drain r \<noteq> Broadcasting \<Longrightarrow> pc \<noteq> Broadcasting \<Longrightarrow> locked (r\<lparr>drain := pc\<rparr>)"
  by (simp add: locked_def)

lemma locked_reader: "locked r \<Longrightarrow> inside pc = inside (readers r i) \<Longrightarrow> locked (at_pc i pc r)"
  by (simp add: locked_def at_pc_def)

lemma locked_enter: "locked r \<Longrightarrow> held r = None \<Longrightarrow> locked (read_lock i n r)"
  by (auto simp: locked_def read_lock_def at_pc_def)

lemma locked_leave:
  "locked r \<Longrightarrow> inside (readers r i) \<Longrightarrow> \<not> inside pc \<Longrightarrow> locked (at_pc i pc (r\<lparr>held := None\<rparr>))"
  by (auto simp: locked_def at_pc_def)

lemma locked_Broadcast: "locked r \<Longrightarrow> locked (Broadcast r)"
  by (simp add: locked_def)

lemma locked_astep:
  assumes "astep r a r'" and l: "locked r"
  shows "locked r'"
  using assms(1)
proof cases
  case (reads bs err rest)
  then have "locked (r\<lparr>drain := drain r'\<rparr>)"
    using l by (intro locked_drain) (auto simp: drain_read_def written_def)
  with reads show ?thesis by (simp add: drain_read_def locked_def)
next
  case (writes bs err)
  then have "locked (r\<lparr>drain := drain r'\<rparr>)"
    using l by (intro locked_drain) (auto simp: drain_write_def written_def)
  with writes show ?thesis by (simp add: drain_write_def locked_def)
next
  case checks
  then show ?thesis using l by (auto simp: drain_check_def intro: locked_drain)
next
  case drain_locks
  then show ?thesis using l by (auto simp: drain_lock_def locked_def)
next
  case broadcasts
  then have "held r = Some Drainer" using l by (simp add: locked_def)
  with broadcasts l show ?thesis by (auto simp: drain_broadcast_def locked_def)
next
  case (calls_Read i n)
  then show ?thesis using l by (simp add: locked_enter)
next
  case (relocks i n)
  then show ?thesis using l by (simp add: locked_enter)
next
  case (tests i n)
  then show ?thesis using l by (auto simp: read_test_def intro: locked_reader)
next
  case (waits i n)
  then show ?thesis using l by (simp add: read_wait_def locked_leave)
next
  case (takes i n)
  have "locked (r\<lparr>buffer := drop n (buffer r), got := got r @ take n (buffer r)\<rparr>)"
    using l by (simp add: locked_def)
  then show ?thesis using takes by (simp add: read_take_def locked_reader)
next
  case (leaves i)
  then show ?thesis using l by (simp add: read_rest_def locked_leave locked_Broadcast)
next
  case (calls_Seek i whence offset)
  then show ?thesis using l by (simp add: locked_reader)
next
  case (seeks i offset whence res b)
  have "locked (r\<lparr>buffer := b\<rparr>)" using l by simp
  then show ?thesis using seeks by (simp add: locked_reader)
qed (use l in simp)

lemma locked_wstep: "wstep r a r' \<Longrightarrow> locked r \<Longrightarrow> locked r'"
  by (erule wstepE) (auto dest: locked_astep)

section \<open>The bytes arrive in order\<close>

text \<open>What \<open>Drain\<close> has read but not yet written.\<close>

definition in_hand :: "wrapper \<Rightarrow> string" where
  "in_hand r = (case drain r of Appending bs err \<Rightarrow> bs | _ \<Rightarrow> [])"

definition drained :: "wrapper \<Rightarrow> string" where
  "drained r = fed r @ in_hand r @ concat (map fst (src r))"

lemma drained_frame [simp]: "drained (r\<lparr>buffer := b\<rparr>) = drained r" "drained (watched r) = drained r"
  by (simp_all add: drained_def in_hand_def)

lemma drained_astep: "astep r a r' \<Longrightarrow> drained r' = drained r"
  by (erule astepE) (auto simp: drained_def in_hand_def piece_defs)

lemma drained_wstep: "wstep r a r' \<Longrightarrow> drained r' = drained r"
  by (erule wstepE) (auto dest: drained_astep)

lemma astep_no_Seek:
  "astep r a r' \<Longrightarrow> \<forall>i. a \<noteq> SeekStep i \<Longrightarrow> got r @ buffer r = fed r \<Longrightarrow> got r' @ buffer r' = fed r'"
  by (erule astepE) (auto simp: piece_defs)

text \<open>Whatever the arguments, \<open>Seek\<close> only discards from the front.\<close>

lemma Seek_suffix: "fits b \<Longrightarrow> Seek offset whence b = Some (res, b') \<Longrightarrow> suffix b' b"
  using Seek_back [of b offset]
  by (auto simp: Seek_def suffix_drop word_sless_alt not_less order_le_less signed_eq_0_iff split: if_splits)

lemma astep_subseq:
  assumes "astep r a r'" and "subseq (got r @ buffer r) (fed r)" and "fits (buffer r)"
  shows "subseq (got r' @ buffer r') (fed r')"
  using assms(1)
proof cases
  case (seeks i offset whence res b)
  with assms(3) have "suffix b (buffer r)" by (auto intro: Seek_suffix)
  then have "subseq (got r @ b) (got r @ buffer r)"
    by (intro list_emb_append_mono) (auto intro: suffix_imp_subseq)
  with seeks assms(2) show ?thesis by (auto simp: at_pc_def intro: subseq_order.trans)
next
  case (takes i n)
  with assms(2) show ?thesis by (simp add: read_take_def at_pc_def)
qed (use assms in \<open>auto simp: piece_defs list_emb_append_mono simp flip: append_assoc\<close>)

section \<open>Nobody waits for data that is there, while the stream lasts\<close>

definition announced :: "wrapper \<Rightarrow> bool" where
  "announced r \<longleftrightarrow> drain r = Reading \<longrightarrow> buffer r \<noteq> [] \<longrightarrow>
     (\<forall>i n. readers r i \<noteq> Waiting n \<and> readers r i \<noteq> Sleepy n)"

lemma announced_astep:
  assumes "announced r" and "astep r a r'" and "fits (buffer r)" and "locked r"
  shows "announced r'"
  using assms(2)
proof cases
  case (seeks i offset whence res b)
  with assms(3) have "suffix b (buffer r)" by (auto intro: Seek_suffix)
  with seeks assms(1) show ?thesis by (auto simp: announced_def at_pc_def)
next
  case broadcasts
  then have "held r = Some Drainer" using assms(4) by (simp add: locked_def)
  then have "\<not> inside (readers r i)" for i using assms(4) by (simp add: locked_def)
  then have "readers r i \<noteq> Sleepy n" for i n by (metis inside.simps(2))
  with broadcasts show ?thesis by (simp add: announced_def drain_broadcast_def)
next
  case (waits i n)
  then show ?thesis using assms(1) by (auto simp: announced_def read_wait_def at_pc_def)
qed (use assms(1) in \<open>auto simp: announced_def piece_defs split: if_splits\<close>)

text \<open>As long as there was no race.\<close>

definition tidy :: "wrapper \<Rightarrow> bool" where
  "tidy r \<longleftrightarrow> subseq (got r @ buffer r) (fed r) \<and> announced r"

lemma fits_buffer:
  assumes "drained r = whole" and "fits whole" and "subseq (got r @ buffer r) (fed r)"
  shows "fits (buffer r)"
proof -
  have "length (buffer r) \<le> length (fed r)" using list_emb_length [OF assms(3)] by simp
  also have "\<dots> \<le> length whole" unfolding assms(1) [symmetric] by (simp add: drained_def)
  finally show ?thesis using assms(2) by linarith
qed

lemma wsteps_invariants:
  "wsteps r0 acts r \<Longrightarrow> r0 = WrapReadSeekClose reader \<Longrightarrow> fits (concat (map fst reader)) \<Longrightarrow>
   drained r = concat (map fst reader) \<and> locked r \<and> (torn r \<or> \<not> racing r) \<and>
   (\<not> torn r \<longrightarrow> tidy r \<and> ((\<forall>i. SeekStep i \<notin> set acts) \<longrightarrow> got r @ buffer r = fed r))"
proof (induction rule: wsteps.induct)
  case (wsteps_nil r)
  then show ?case
    by (simp add: WrapReadSeekClose_def announced_def drained_def in_hand_def locked_def tidy_def
        racing_def drain_changes_def)
next
  case (wsteps_snoc r acts r' a r'')
  then have d: "drained r'' = concat (map fst reader)" and l: "locked r''"
    using drained_wstep locked_wstep by auto
  from wsteps_snoc.hyps(2) show ?case
  proof cases
    case (orderly s)
    with wsteps_snoc have t: "tidy r'" "locked r'"
      and e: "(\<forall>i. SeekStep i \<notin> set acts) \<longrightarrow> got r' @ buffer r' = fed r'"
      by auto
    have "fits (buffer r')"
      using fits_buffer [of r' "concat (map fst reader)"] wsteps_snoc t(1) by (simp add: tidy_def)
    with t orderly(3) have "tidy s"
      using astep_subseq [of r' a s] announced_astep [of r' a s] by (simp add: tidy_def)
    then have "tidy r''" using orderly(1) by (simp add: tidy_def announced_def)
    moreover have "(\<forall>i. SeekStep i \<notin> set (acts @ [a])) \<longrightarrow> got r'' @ buffer r'' = fed r''"
      using e orderly(1) astep_no_Seek [OF orderly(3)] by auto
    moreover have "torn r'' \<or> \<not> racing r''"
      using orderly(1) by (auto simp: racing_def)
    ultimately show ?thesis using d l by blast
  next
    case (broken b s b')
    then have "torn r''" by simp
    with d l show ?thesis by blast
  qed
qed

section \<open>Runs without a race\<close>

lemma calm_step: "\<not> torn r \<Longrightarrow> astep r a r' \<Longrightarrow> \<not> racing r' \<Longrightarrow> wstep r a r'"
proof -
  assume r: "\<not> torn r" "astep r a r'" "\<not> racing r'"
  then have "watched r' = r'" by (cases r') (auto simp: watched_def)
  with orderly [OF r(1,2)] show ?thesis by simp
qed

lemma wsteps_one: "wstep r a r' \<Longrightarrow> wsteps r [a] r'"
  using wsteps_snoc [OF wsteps_nil] by simp

lemma wsteps_append: "wsteps r' bs r'' \<Longrightarrow> wsteps r as r' \<Longrightarrow> wsteps r (as @ bs) r''"
proof (induction rule: wsteps.induct)
  case (wsteps_snoc r' bs s a s')
  from wsteps.wsteps_snoc [OF wsteps_snoc.IH [OF wsteps_snoc.prems] wsteps_snoc.hyps(2)] show ?case by simp
qed simp

lemma at_Broadcast [simp]:
  "reader_at (readers (Broadcast r) i) = reader_at (readers r i)"
  "reader_changes (readers (Broadcast r) i) = reader_changes (readers r i)"
  by (simp_all add: Broadcast_def split: read_pc.split)

lemma calm_drain:
  "\<not> racing r \<Longrightarrow> drain_at pc \<longrightarrow> drain_at (drain r) \<Longrightarrow> drain_changes pc \<longrightarrow> drain_changes (drain r) \<Longrightarrow>
   drain r' = pc \<Longrightarrow> readers r' = readers r \<Longrightarrow> \<not> racing r'"
  by (auto simp: racing_def)

lemma calm_reader:
  "\<not> racing r \<Longrightarrow> drain r' = drain r \<Longrightarrow> readers r' = (readers r)(i := pc) \<Longrightarrow>
   reader_at pc \<longrightarrow> reader_at (readers r i) \<Longrightarrow> reader_changes pc \<longrightarrow> reader_changes (readers r i) \<Longrightarrow>
   \<not> racing r'"
  unfolding racing_def by (auto split: if_splits)

lemma calm_Broadcast: "\<not> racing r \<Longrightarrow> \<not> racing (Broadcast r)"
  by (simp add: racing_def)

section \<open>Drain gets to its broadcast\<close>

text \<open>\<open>Drain\<close> has seen the end of the stream, or an error.\<close>

fun past_loop :: "drain_pc \<Rightarrow> bool" where
  "past_loop Complete = True"
| "past_loop (Appending bs err) = (err \<noteq> None)"
| "past_loop _ = False"

definition calm :: "wrapper \<Rightarrow> bool" where
  "calm r \<longleftrightarrow> locked r \<and> \<not> torn r \<and> \<not> racing r"

lemma calm_next: "calm r \<Longrightarrow> astep r a r' \<Longrightarrow> \<not> racing r' \<Longrightarrow> wstep r a r' \<and> calm r'"
  by (simp add: calm_def calm_step locked_astep)

lemma drain_checks:
  assumes "calm r" and "drain r = Checking" and "buffer r \<noteq> []"
  shows "wstep r DrainStep (drain_check r) \<and> calm (drain_check r) \<and> drain (drain_check r) = Announcing"
proof -
  have "\<not> racing (drain_check r)"
    by (rule calm_drain [of r Announcing]) (use assms in \<open>auto simp: calm_def drain_check_def drain_changes_def\<close>)
  from calm_next [OF assms(1) astep.checks [OF assms(2)] this] assms(3) show ?thesis
    by (simp add: drain_check_def)
qed

lemma drain_writes:
  assumes "calm r" and "drain r = Appending bs None"
  shows "wstep r DrainStep (drain_write bs None r) \<and> calm (drain_write bs None r) \<and>
    drain (drain_write bs None r) = Checking"
proof -
  have "\<not> racing (drain_write bs None r)"
    by (rule calm_drain [of r Checking])
      (use assms in \<open>auto simp: calm_def drain_write_def drain_changes_def written_def\<close>)
  from calm_next [OF assms(1) astep.writes [OF assms(2)] this] show ?thesis
    by (simp add: drain_write_def written_def)
qed

lemma drain_gets_to_lock:
  assumes "calm r" and "buffer r \<noteq> []" and "\<not> past_loop (drain r)" and "drain r \<notin> {Reading, Broadcasting}"
  shows "\<exists>k r'. k \<le> 2 \<and> wsteps r (replicate k DrainStep) r' \<and> calm r' \<and> drain r' = Announcing \<and> held r' = held r"
proof -
  consider bs where "drain r = Appending bs None" | "drain r = Checking" | "drain r = Announcing"
    using assms(3,4) by (cases "drain r") auto
  then show ?thesis
  proof cases
    case 1
    note w = drain_writes [OF assms(1) 1]
    have b: "buffer (drain_write bs None r) \<noteq> []" using assms(2) by (simp add: drain_write_def)
    from b w drain_checks [of "drain_write bs None r"]
    have "wsteps r [DrainStep, DrainStep] (drain_check (drain_write bs None r))"
      using wsteps_append [OF wsteps_one wsteps_one] by fastforce
    moreover have "held (drain_check (drain_write bs None r)) = held r"
      by (simp add: drain_check_def drain_write_def)
    ultimately show ?thesis
      using drain_checks [of "drain_write bs None r"] w b
      by (intro exI [of _ 2] exI [of _ "drain_check (drain_write bs None r)"]) (simp add: numeral_2_eq_2)
  next
    case 2
    with drain_checks [OF assms(1) 2 assms(2)] show ?thesis
      by (intro exI [of _ 1] exI [of _ "drain_check r"]) (auto intro: wsteps_one simp: drain_check_def)
  next
    case 3
    with assms(1) show ?thesis by (intro exI [of _ 0] exI [of _ r]) (simp add: wsteps_nil)
  qed
qed

text \<open>The holder of the lock waits or leaves within three steps.\<close>

lemma reader_waits:
  assumes "calm r" and "readers r j = Sleepy n"
  shows "wstep r (ReadStep j) (read_wait j n r) \<and> calm (read_wait j n r)"
proof -
  have "\<not> racing (read_wait j n r)"
    by (rule calm_reader [of r _ j "Waiting n"]) (use assms in \<open>auto simp: calm_def read_wait_def at_pc_def\<close>)
  from calm_next [OF assms(1) astep.waits [OF assms(2)] this] show ?thesis .
qed

lemma reader_leaves:
  assumes "calm r" and "readers r j = Rest"
  shows "wstep r (ReadStep j) (read_rest j r) \<and> calm (read_rest j r)"
proof -
  have "\<not> racing (if 0 < length (buffer r) then Broadcast r else r)"
    using assms(1) calm_Broadcast by (simp add: calm_def)
  then have "\<not> racing (read_rest j r)"
    by (rule calm_reader [where i = j and pc = Away]) (simp_all add: read_rest_def at_pc_def)
  from calm_next [OF assms(1) astep.leaves [OF assms(2)] this] show ?thesis .
qed

lemma reader_takes:
  assumes "calm r" and "readers r j = Taking n"
  shows "wstep r (ReadStep j) (read_take j n r) \<and> calm (read_take j n r)"
proof -
  have "\<not> racing (read_take j n r)"
    by (rule calm_reader [of r _ j Rest]) (use assms in \<open>auto simp: calm_def read_take_def at_pc_def\<close>)
  from calm_next [OF assms(1) astep.takes [OF assms(2)] this] show ?thesis .
qed

lemma reader_tests:
  assumes "calm r" and "readers r j = Testing n" and "\<not> drain_at (drain r)"
  shows "wstep r (ReadStep j) (read_test j n r) \<and> calm (read_test j n r)"
proof -
  have alone: "\<not> reader_at (readers r k)" if "k \<noteq> j" for k
  proof
    assume k: "reader_at (readers r k)"
    have "inside (readers r j)" using assms(2) by simp
    then have "\<not> inside (readers r k)" using assms(1) that by (auto simp: calm_def locked_def)
    with k have "reader_changes (readers r k)" by (cases "readers r k") auto
    moreover have "reader_at (readers r j)" using assms(2) by simp
    ultimately show False using assms(1) that by (auto simp: calm_def racing_def)
  qed
  have "\<not> racing (read_test j n r)"
    using alone assms(3) by (auto simp: racing_def read_test_def at_pc_def drain_changes_def split: if_splits)
      (metis reader_at.simps reader_changes.elims(2))+
  from calm_next [OF assms(1) astep.tests [OF assms(2)] this] show ?thesis .
qed

lemma holder_lets_go:
  assumes "calm r" and "held r = Some (Reader j)" and "drain r = Announcing"
  shows "\<exists>k r'. k \<le> 3 \<and> wsteps r (replicate k (ReadStep j)) r' \<and> calm r' \<and> held r' = None \<and>
    drain r' = Announcing"
proof -
  have sleepy: "\<exists>r'. wsteps s [ReadStep j] r' \<and> calm r' \<and> held r' = None \<and> drain r' = Announcing"
    if "calm s" "readers s j = Sleepy n" "drain s = Announcing" for s n
    using reader_waits [OF that(1,2)] that(3) by (intro exI [of _ "read_wait j n s"])
      (simp add: wsteps_one read_wait_def at_pc_def)
  have rest: "\<exists>r'. wsteps s [ReadStep j] r' \<and> calm r' \<and> held r' = None \<and> drain r' = Announcing"
    if "calm s" "readers s j = Rest" "drain s = Announcing" for s
    using reader_leaves [OF that(1,2)] that(3) by (intro exI [of _ "read_rest j s"])
      (simp add: wsteps_one read_rest_def at_pc_def)
  have taking: "\<exists>r'. wsteps s [ReadStep j, ReadStep j] r' \<and> calm r' \<and> held r' = None \<and> drain r' = Announcing"
    if "calm s" "readers s j = Taking n" "drain s = Announcing" for s n
  proof -
    note t = reader_takes [OF that(1,2)]
    have "readers (read_take j n s) j = Rest" "drain (read_take j n s) = Announcing"
      using that(3) by (simp_all add: read_take_def at_pc_def)
    with t rest [of "read_take j n s"] wsteps_append [OF _ wsteps_one, of "read_take j n s" "[ReadStep j]"]
    show ?thesis by fastforce
  qed
  have "inside (readers r j)" using assms(1,2) by (simp add: calm_def locked_def)
  then consider n where "readers r j = Testing n" | n where "readers r j = Sleepy n"
    | n where "readers r j = Taking n" | "readers r j = Rest"
    by (cases "readers r j") auto
  then show ?thesis
  proof cases
    case (1 n)
    then have t: "wstep r (ReadStep j) (read_test j n r)" "calm (read_test j n r)"
      using reader_tests [OF assms(1)] assms(3) by simp_all
    have d: "drain (read_test j n r) = Announcing" using assms(3) by (simp add: read_test_def at_pc_def)
    have "readers (read_test j n r) j \<in> {Sleepy n, Taking n}" by (simp add: read_test_def at_pc_def)
    then obtain m r' where "m \<le> 2" "wsteps (read_test j n r) (replicate m (ReadStep j)) r'" "calm r'"
      "held r' = None" "drain r' = Announcing"
      using sleepy [OF t(2) _ d, of n] taking [OF t(2) _ d, of n]
      by (metis insertE singletonD replicate_0 replicate_Suc numeral_2_eq_2 le_refl one_le_numeral One_nat_def)
    moreover from this(2) have "wsteps r (replicate (Suc m) (ReadStep j)) r'"
      using wsteps_append [OF _ wsteps_one [OF t(1)]] by fastforce
    ultimately show ?thesis by (intro exI [of _ "Suc m"] exI [of _ r']) simp
  next
    case (2 n)
    from sleepy [OF assms(1) this assms(3)] show ?thesis
      by (metis replicate_0 replicate_Suc one_le_numeral One_nat_def)
  next
    case (3 n)
    from taking [OF assms(1) this assms(3)] obtain r' where
      "wsteps r [ReadStep j, ReadStep j] r'" "calm r'" "held r' = None" "drain r' = Announcing"
      by blast
    then show ?thesis by (intro exI [of _ 2] exI [of _ r']) (simp add: numeral_2_eq_2)
  next
    case 4
    from rest [OF assms(1) this assms(3)] show ?thesis
      by (metis replicate_0 replicate_Suc one_le_numeral One_nat_def)
  qed
qed

lemma drain_broadcasts:
  assumes "calm r" and "drain r = Broadcasting"
  shows "wstep r DrainStep (drain_broadcast r) \<and> readers (drain_broadcast r) i \<noteq> Waiting n"
proof -
  have "\<not> racing (drain_broadcast r)"
    by (rule calm_drain [OF calm_Broadcast, of r Reading])
      (use assms in \<open>simp_all add: calm_def drain_broadcast_def drain_changes_def\<close>)
  from calm_next [OF assms(1) astep.broadcasts [OF assms(2)] this] show ?thesis
    by (simp add: drain_broadcast_def)
qed

lemma drain_announces:
  assumes "calm r" and "drain r = Announcing" and "held r = None"
  shows "\<exists>r'. wsteps r [DrainStep, DrainStep] r' \<and> (\<forall>i n. readers r' i \<noteq> Waiting n)"
proof -
  have "\<not> racing (drain_lock r)"
    by (rule calm_drain [of r Broadcasting])
      (use assms in \<open>simp_all add: calm_def drain_lock_def drain_changes_def\<close>)
  from calm_next [OF assms(1) astep.drain_locks [OF assms(2,3)] this]
  have "wstep r DrainStep (drain_lock r)" "calm (drain_lock r)" by simp_all
  with drain_broadcasts [of "drain_lock r"] show ?thesis
    using wsteps_append [OF wsteps_one wsteps_one, of "drain_lock r" DrainStep "drain_broadcast (drain_lock r)" r]
    by (fastforce simp: drain_lock_def)
qed

section \<open>Runs of one reader\<close>

text \<open>Nobody else is at the buffer than \<open>Drain\<close> or reader 0, and not both of them.\<close>

lemma calm_alone:
  "\<forall>i. i \<noteq> 0 \<longrightarrow> readers r i = Away \<Longrightarrow> \<not> drain_at (drain r) \<or> \<not> reader_at (readers r 0) \<Longrightarrow> \<not> racing r"
  unfolding racing_def drain_changes_def
  by (metis reader_at.simps(5) reader_changes.simps(3) reader_at.simps(2,4) reader_changes.elims(2))

definition starts_waiting :: "err \<Rightarrow> wrapper" where
  "starts_waiting e = read_wait 0 9 (read_test 0 9 (read_lock 0 9 (WrapReadSeekClose [(''hi'', e)])))"

definition waiting_demo :: "err \<Rightarrow> wrapper" where
  "waiting_demo e = drain_write ''hi'' e (drain_read ''hi'' e (starts_waiting e))"

lemma run_snoc:
  "wsteps r as s \<Longrightarrow> astep s a s' \<Longrightarrow> \<not> torn s \<Longrightarrow> \<forall>i. i \<noteq> 0 \<longrightarrow> readers s' i = Away \<Longrightarrow>
   \<not> drain_at (drain s') \<or> \<not> reader_at (readers s' 0) \<Longrightarrow> wsteps r (as @ [a]) s'"
  by (rule wsteps_snoc, assumption, rule calm_step [OF _ _ calm_alone])

lemmas demo_defs = waiting_demo_def starts_waiting_def WrapReadSeekClose_def piece_defs

lemma waiting_demo_reached:
  "wsteps (WrapReadSeekClose [(''hi'', e)]) [ReadCall 0, ReadStep 0, ReadStep 0, DrainStep, DrainStep] (waiting_demo e)"
proof -
  let ?r = "WrapReadSeekClose [(''hi'', e)]"
  have 1: "wsteps ?r ([] @ [ReadCall 0]) (read_lock 0 9 ?r)"
    by (rule run_snoc [OF wsteps_nil astep.calls_Read]) (simp_all add: demo_defs)
  have 2: "wsteps ?r (([] @ [ReadCall 0]) @ [ReadStep 0]) (read_test 0 9 (read_lock 0 9 ?r))"
    by (rule run_snoc [OF 1 astep.tests]) (simp_all add: demo_defs)
  have 3: "wsteps ?r ((([] @ [ReadCall 0]) @ [ReadStep 0]) @ [ReadStep 0]) (starts_waiting e)"
    unfolding starts_waiting_def
    by (rule run_snoc [OF 2 astep.waits]) (simp_all add: demo_defs)
  have 4: "wsteps ?r (((([] @ [ReadCall 0]) @ [ReadStep 0]) @ [ReadStep 0]) @ [DrainStep])
      (drain_read ''hi'' e (starts_waiting e))"
    by (rule run_snoc [OF 3 astep.reads]) (simp_all add: demo_defs)
  have "wsteps ?r ((((([] @ [ReadCall 0]) @ [ReadStep 0]) @ [ReadStep 0]) @ [DrainStep]) @ [DrainStep]) (waiting_demo e)"
    unfolding waiting_demo_def
    by (rule run_snoc [OF 4 astep.writes]) (simp_all add: demo_defs)
  then show ?thesis by simp
qed

lemma waiting_demo_simps:
  "readers (waiting_demo e) 0 = Waiting 9" "buffer (waiting_demo e) = ''hi''" "got (waiting_demo e) = []"
  "drain (waiting_demo e) = (if e = None then Checking else Complete)" "\<not> torn (waiting_demo e)"
  by (auto simp: demo_defs)

definition reading_demo :: wrapper where
  "reading_demo = read_take 0 3 (read_test 0 3 (read_lock 0 3
     (drain_check (drain_write ''hello'' None (drain_read ''hello'' None (WrapReadSeekClose [(''hello'', None)]))))))"

lemma reading_demo_reached:
  "wsteps (WrapReadSeekClose [(''hello'', None)])
     [DrainStep, DrainStep, DrainStep, ReadCall 0, ReadStep 0, ReadStep 0] reading_demo"
proof -
  let ?r = "WrapReadSeekClose [(''hello'', None)]"
  let ?d = "drain_check (drain_write ''hello'' None (drain_read ''hello'' None ?r))"
  have 1: "wsteps ?r ([] @ [DrainStep]) (drain_read ''hello'' None ?r)"
    by (rule run_snoc [OF wsteps_nil astep.reads]) (simp_all add: demo_defs)
  have 2: "wsteps ?r (([] @ [DrainStep]) @ [DrainStep]) (drain_write ''hello'' None (drain_read ''hello'' None ?r))"
    by (rule run_snoc [OF 1 astep.writes]) (simp_all add: demo_defs)
  have 3: "wsteps ?r ((([] @ [DrainStep]) @ [DrainStep]) @ [DrainStep]) ?d"
    by (rule run_snoc [OF 2 astep.checks]) (simp_all add: demo_defs drain_check_def)
  have 4: "wsteps ?r (((([] @ [DrainStep]) @ [DrainStep]) @ [DrainStep]) @ [ReadCall 0]) (read_lock 0 3 ?d)"
    by (rule run_snoc [OF 3 astep.calls_Read]) (simp_all add: demo_defs)
  have 5: "wsteps ?r ((((([] @ [DrainStep]) @ [DrainStep]) @ [DrainStep]) @ [ReadCall 0]) @ [ReadStep 0])
      (read_test 0 3 (read_lock 0 3 ?d))"
    by (rule run_snoc [OF 4 astep.tests]) (simp_all add: demo_defs)
  have "wsteps ?r (((((([] @ [DrainStep]) @ [DrainStep]) @ [DrainStep]) @ [ReadCall 0]) @ [ReadStep 0]) @ [ReadStep 0])
      reading_demo"
    unfolding reading_demo_def by (rule run_snoc [OF 5 astep.takes]) (simp_all add: demo_defs)
  then show ?thesis by simp
qed

lemma reading_demo_simps:
  "got reading_demo = ''hel''" "buffer reading_demo = ''lo''" "\<not> torn reading_demo" "readers reading_demo 0 = Rest"
  by (simp_all add: reading_demo_def demo_defs numeral_3_eq_3)

section \<open>Properties\<close>

text \<open>
  C17. The docker stream reaches the tailer unaltered as long as no two goroutines race on the buffer:
  however \<open>Drain\<close>, the readers and \<open>Seek\<close> interleave, what was read and what is still buffered is a
  subsequence of the stream's bytes, in order and without duplicates, and without a \<open>Seek\<close> it is
  exactly the bytes drained so far.  The lock does its part: no two callers of \<open>Read\<close> are ever at the
  buffer, so every race has \<open>Drain\<close> or \<open>Seek\<close> in it.
\<close>

theorem stream_bytes_in_order:
  assumes "wsteps (WrapReadSeekClose reader) acts r" and "fits (concat (map fst reader))"
  shows "prefix (fed r) (concat (map fst reader)) \<and>
    (\<not> torn r \<longrightarrow> subseq (got r @ buffer r) (fed r) \<and>
       ((\<forall>i. SeekStep i \<notin> set acts) \<longrightarrow> got r @ buffer r = fed r)) \<and>
    (inside (readers r i) \<and> inside (readers r j) \<longrightarrow> i = j) \<and>
    (racing r \<longrightarrow> drain_at (drain r) \<or> (\<exists>i offset whence. readers r i = Seeking offset whence))"
proof (intro conjI impI)
  note inv = wsteps_invariants [OF assms(1) refl assms(2)]
  from inv show "prefix (fed r) (concat (map fst reader))" by (metis drained_def prefixI)
  show "subseq (got r @ buffer r) (fed r)" if "\<not> torn r" using inv that by (simp add: tidy_def)
  show "got r @ buffer r = fed r" if "\<not> torn r" "\<forall>i. SeekStep i \<notin> set acts" using inv that by blast
  show one: "i = j" if "inside (readers r i) \<and> inside (readers r j)" for i j
  proof -
    from inv that have "held r = Some (Reader i)" "held r = Some (Reader j)" unfolding locked_def by blast+
    then show ?thesis by simp
  qed
  show "drain_at (drain r) \<or> (\<exists>i offset whence. readers r i = Seeking offset whence)" if "racing r"
  proof (rule ccontr)
    assume no: "\<not> ?thesis"
    then have "reader_at (readers r i) \<Longrightarrow> inside (readers r i)" for i
      by (cases "readers r i") auto
    moreover have "reader_changes pc \<Longrightarrow> reader_at pc" for pc by (cases pc) auto
    ultimately show False using that no one unfolding racing_def drain_changes_def by meson
  qed
qed

theorem stream_bytes_in_order_witness:
  "\<exists>acts. wsteps (WrapReadSeekClose [(''hello'', None)]) acts reading_demo \<and>
     got reading_demo @ buffer reading_demo = fed reading_demo \<and> fed reading_demo = ''hello'' \<and>
     inside (readers reading_demo 0)"
proof -
  from stream_bytes_in_order [OF reading_demo_reached, of 0 0] reading_demo_simps
  have "got reading_demo @ buffer reading_demo = fed reading_demo" by simp
  with reading_demo_reached reading_demo_simps show ?thesis by auto
qed

text \<open>
  C18. No wakeup is lost while the stream lasts, unless there was a race: whenever a reader waits
  although the buffer has data, \<open>Drain\<close> is on its way to the broadcast, and at most seven steps, of
  \<open>Drain\<close> and of the reader that holds the lock, leave no reader waiting.
\<close>

theorem waiting_reader_is_woken:
  assumes "wsteps (WrapReadSeekClose reader) acts r" and "fits (concat (map fst reader))"
    and "readers r i = Waiting n" and "buffer r \<noteq> []" and "\<not> past_loop (drain r)" and "\<not> torn r"
  shows "drain r \<noteq> Reading \<and>
    (\<exists>acts' r'. set acts' \<subseteq> insert DrainStep {ReadStep j | j. held r = Some (Reader j)} \<and>
       length acts' \<le> 7 \<and> wsteps r acts' r' \<and> (\<forall>j m. readers r' j \<noteq> Waiting m))"
proof -
  note inv = wsteps_invariants [OF assms(1) refl assms(2)]
  with assms(6) have calm: "calm r" and "tidy r" by (simp_all add: calm_def)
  with assms(3,4) have d: "drain r \<noteq> Reading" by (auto simp: tidy_def announced_def)
  show ?thesis
  proof (cases "drain r = Broadcasting")
    case True
    with drain_broadcasts [OF calm] show ?thesis
      using wsteps_one by (intro conjI [OF d] exI [of _ "[DrainStep]"] exI [of _ "drain_broadcast r"]) simp
  next
    case False
    with d drain_gets_to_lock [OF calm assms(4,5)] obtain k r1
      where k: "k \<le> 2" "wsteps r (replicate k DrainStep) r1"
        and r1: "calm r1" "drain r1 = Announcing" "held r1 = held r"
      by blast
    have "held r1 \<noteq> Some Drainer" using r1 by (auto simp: calm_def locked_def)
    then consider "held r1 = None" | j where "held r1 = Some (Reader j)"
      by (metis owner.exhaust option.exhaust)
    then obtain acts1 r2 where r2: "set acts1 \<subseteq> {ReadStep j | j. held r = Some (Reader j)}"
      "length acts1 \<le> 3" "wsteps r1 acts1 r2" "calm r2" "held r2 = None" "drain r2 = Announcing"
    proof cases
      case 1
      with r1 that [of "[]" r1] show thesis by (simp add: wsteps_nil)
    next
      case (2 j)
      from holder_lets_go [OF r1(1) 2 r1(2)] obtain m r2
        where "m \<le> 3" "wsteps r1 (replicate m (ReadStep j)) r2" "calm r2" "held r2 = None" "drain r2 = Announcing"
        by blast
      with 2 r1(3) that [of "replicate m (ReadStep j)" r2] show thesis
        by (simp add: set_replicate_conv_if)
    qed
    from drain_announces [OF r2(4,6,5)] obtain r'
      where "wsteps r2 [DrainStep, DrainStep] r'" "\<forall>j m. readers r' j \<noteq> Waiting m" by blast
    then show ?thesis
      using d k r2 wsteps_append [OF _ wsteps_append [OF r2(3) k(2)]]
      by (intro conjI [OF d] exI [of _ "(replicate k DrainStep @ acts1) @ [DrainStep, DrainStep]"]
          exI [of _ r']) auto
  qed
qed

theorem waiting_reader_is_woken_witness:
  "drain (waiting_demo None) \<noteq> Reading \<and>
   (\<exists>acts' r'. set acts' \<subseteq> {DrainStep} \<and> length acts' \<le> 7 \<and> wsteps (waiting_demo None) acts' r' \<and>
     (\<forall>j m. readers r' j \<noteq> Waiting m))"
proof -
  have "held (waiting_demo None) = None" by (simp add: demo_defs)
  with waiting_reader_is_woken [OF waiting_demo_reached [of None], of 0 9] show ?thesis
    by (simp add: waiting_demo_simps)
qed

text \<open>
  The last bytes may never arrive: \<open>Drain\<close> leaves its loop on an error before it broadcasts, so
  a reader that was waiting when the final read brought both data and \<open>io.EOF\<close> stays waiting, with
  the data in the buffer, and neither it nor \<open>Drain\<close> has a step left.
\<close>

theorem final_chunk_not_announced:
  "\<exists>acts r. wsteps (WrapReadSeekClose [(''hi'', Some ''EOF'')]) acts r \<and> \<not> torn r \<and>
     readers r 0 = Waiting 9 \<and> buffer r = ''hi'' \<and> got r = [] \<and>
     (\<forall>r'. \<not> wstep r DrainStep r' \<and> \<not> wstep r (ReadCall 0) r' \<and> \<not> wstep r (ReadStep 0) r')"
proof (intro exI conjI)
  let ?r = "waiting_demo (Some ''EOF'')"
  show "wsteps (WrapReadSeekClose [(''hi'', Some ''EOF'')])
      [ReadCall 0, ReadStep 0, ReadStep 0, DrainStep, DrainStep] ?r"
    by (rule waiting_demo_reached)
  show "\<forall>r'. \<not> wstep ?r DrainStep r' \<and> \<not> wstep ?r (ReadCall 0) r' \<and> \<not> wstep ?r (ReadStep 0) r'"
    using waiting_demo_simps [of "Some ''EOF''"] by (auto elim!: wstepE astepE)
qed (simp_all add: waiting_demo_simps)

text \<open>
  C28. \<open>Seek\<close> always returns: with whence 2 and an offset \<open>-n\<close> it keeps the last \<open>n\<close> buffered bytes
  (all of them when there are fewer), and every other request is refused with the buffer untouched.
\<close>

theorem Seek_keeps_tail:
  assumes "fits b"
  shows "Seek offset whence b =
    (if whence \<noteq> 2 then Some ((0, Some (''Seeking to '' @ int_dec whence @ '' not implemented'')), b)
     else if 0 < sint offset then
       Some ((0, Some (''Seeking past EOF to '' @ i64_dec offset @ '' not supported'')), b)
     else Some ((0, None), drop (length b - nat (- sint offset)) b))"
proof -
  consider "0 < sint offset" | "offset = 0" | "sint offset < 0"
    by (metis linorder_neqE_linordered_idom signed_eq_0_iff)
  then show ?thesis
    by cases (auto simp: Seek_back [OF assms], auto simp: Seek_def word_sless_alt)
qed

theorem Seek_keeps_tail_witness:
  "Seek (- 2) 2 ''hello'' = Some ((0, None), ''lo'')"
  using Seek_keeps_tail [of "''hello''" "- 2" 2] by simp

end
