(* ===== verification/Storage.thy ===== *)
theory Storage
  imports Prelude
begin

text \<open>
  The storage back ends of the tail tracker: \<open>apptail/storage/gob_handler.go\<close> (the file) and
  \<open>apptail/storage/fake_gob_handler.go\<close> (the stand-in of the unit tests), behind the interface
  \<open>Storage\<close> with its three operations.  A file holds the complete gob stream of a value (\<open>Gob\<close>),
  or bytes that do not decode: the empty file \<open>os.Create\<close> and a truncation leave or what a failed
  write left behind (\<open>Raw\<close>), the beginning of something longer (\<open>Cut\<close>), or pieces of two writers
  (\<open>Mixed\<close>).  The operating system is the record \<open>disk\<close>, whose fault fields make any single call
  fail.
\<close>

section \<open>The stored value and its encoding\<close>

type_synonym tail_node = "string \<rightharpoonup> int64"

record Tailer =
  Instances :: "string \<rightharpoonup> tail_node"

definition empty_Tailer :: Tailer where
  "empty_Tailer = \<lparr>Instances = Map.empty\<rparr>"

datatype blob = Gob Tailer | Raw string | Cut blob | Mixed

text \<open>
  Package gob reads a whole message before it touches the destination, and decoding into a
  non-nil map adds the decoded entries to those already there.
\<close>

fun gob_decode :: "blob \<Rightarrow> Tailer \<Rightarrow> err \<times> Tailer" where
  "gob_decode (Gob t) e = (None, e\<lparr>Instances := Instances e ++ Instances t\<rparr>)"
| "gob_decode (Raw s) e = (Some (if s = [] then ''EOF'' else ''unexpected EOF''), e)"
| "gob_decode (Cut b) e = (Some ''unexpected EOF'', e)"
| "gob_decode Mixed e = (Some ''gob: bad data'', e)"

section \<open>The operating system\<close>

datatype os_error = NotExist | OsError string

record disk =
  files :: "string \<rightharpoonup> blob"
  modes :: "string \<rightharpoonup> nat"
  create_mode :: nat
  stat_fault :: "string \<Rightarrow> err"
  create_fault :: "string \<Rightarrow> err"
  read_fault :: "string \<Rightarrow> (string \<times> blob) option"
  write_fault :: "string \<Rightarrow> (string \<times> blob option) option"
  chmod_fault :: "string \<Rightarrow> err"

definition os_Stat :: "string \<Rightarrow> disk \<Rightarrow> os_error option" where
  "os_Stat p d =
     (case stat_fault d p of
        Some e \<Rightarrow> Some (OsError e)
      | None \<Rightarrow> if in_map p (files d) then None else Some NotExist)"

definition os_Create :: "string \<Rightarrow> disk \<Rightarrow> err \<times> disk" where
  "os_Create p d =
     (case create_fault d p of
        Some e \<Rightarrow> (Some e, d)
      | None \<Rightarrow> (None, d\<lparr>files := (files d)(p \<mapsto> Raw []),
                        modes := (modes d)(p \<mapsto> create_mode d)\<rparr>))"

definition os_ReadFile :: "string \<Rightarrow> disk \<Rightarrow> err \<times> blob" where
  "os_ReadFile p d =
     (case read_fault d p of
        Some (e, part) \<Rightarrow> (Some e, part)
      | None \<Rightarrow> (case files d p of
                   None \<Rightarrow> (Some ''no such file or directory'', Raw [])
                 | Some b \<Rightarrow> (None, b)))"

text \<open>
  \<open>ioutil.WriteFile\<close> opens the file with \<open>O_TRUNC\<close>, which empties it, and then writes; the kernel may
  take the bytes in pieces.  The pieces are a first one, which leaves a beginning, and the rest, which
  completes the file only if it is still this writer's beginning that is there.
\<close>

definition os_OpenTrunc :: "string \<Rightarrow> disk \<Rightarrow> err \<times> disk" where
  "os_OpenTrunc p d =
     (let m = (case modes d p of None \<Rightarrow> create_mode d | Some m \<Rightarrow> m) in
      case write_fault d p of
        Some (e, None) \<Rightarrow> (Some e, d)
      | _ \<Rightarrow> (None, d\<lparr>files := (files d)(p \<mapsto> Raw []), modes := (modes d)(p \<mapsto> m)\<rparr>))"

definition os_WriteFirst :: "string \<Rightarrow> blob \<Rightarrow> disk \<Rightarrow> disk" where
  "os_WriteFirst p b d =
     d\<lparr>files := (files d)(p \<mapsto> (if files d p = Some (Raw []) then Cut b else Mixed))\<rparr>"

definition os_WriteRest :: "string \<Rightarrow> blob \<Rightarrow> disk \<Rightarrow> err \<times> disk" where
  "os_WriteRest p b d =
     (case write_fault d p of
        Some (e, Some part) \<Rightarrow> (Some e, d\<lparr>files := (files d)(p \<mapsto> part)\<rparr>)
      | _ \<Rightarrow> (None, d\<lparr>files := (files d)(p \<mapsto> (if files d p = Some (Cut b) then b else Mixed))\<rparr>))"

definition os_WriteFile :: "string \<Rightarrow> blob \<Rightarrow> disk \<Rightarrow> err \<times> disk" where
  "os_WriteFile p b d =
     (case os_OpenTrunc p d of
        (Some e, d) \<Rightarrow> (Some e, d)
      | (None, d) \<Rightarrow> os_WriteRest p b (os_WriteFirst p b d))"

definition os_Chmod :: "string \<Rightarrow> nat \<Rightarrow> disk \<Rightarrow> err \<times> disk" where
  "os_Chmod p m d =
     (case chmod_fault d p of
        Some e \<Rightarrow> (Some e, d)
      | None \<Rightarrow> (None, d\<lparr>modes := (modes d)(p \<mapsto> m)\<rparr>))"

section \<open>The interface Storage\<close>

record 's Storage =
  Encode :: "Tailer \<Rightarrow> 's \<Rightarrow> ((err \<times> blob) \<times> 's) go"
  Load :: "Tailer \<Rightarrow> 's \<Rightarrow> ((err \<times> Tailer) \<times> 's) go"
  Write :: "blob \<Rightarrow> 's \<Rightarrow> (err \<times> 's) go"

section \<open>FileStorage\<close>

record FileStorage =
  file_path :: string
  writeLock :: bool
  fs_disk :: disk

definition FILE_MODE :: nat where
  "FILE_MODE = 438" \<comment> \<open>0666\<close>

definition NewFileStorage :: "string \<Rightarrow> disk \<Rightarrow> FileStorage" where
  "NewFileStorage path d = \<lparr>file_path = path, writeLock = False, fs_disk = d\<rparr>"

definition FileStorage_Encode ::
    "Tailer \<Rightarrow> FileStorage \<Rightarrow> ((err \<times> blob) \<times> FileStorage) go" where
  "FileStorage_Encode data s = Inr ((None, Gob data), s)"

text \<open>
  \<open>Write\<close> in the pieces other goroutines may come between: the lock, the opening of the file, the
  writing of its bytes, the change of its mode, the deferred unlock.
\<close>

definition fs_lock :: "FileStorage \<Rightarrow> FileStorage go" where
  "fs_lock s = (if writeLock s then Inl Blocked else Inr (s\<lparr>writeLock := True\<rparr>))"

definition fs_unlock :: "FileStorage \<Rightarrow> FileStorage go" where
  "fs_unlock s =
     (if writeLock s then Inr (s\<lparr>writeLock := False\<rparr>)
      else Inl (Panic ''sync: unlock of unlocked mutex''))"

definition on_disk_of :: "(string \<Rightarrow> disk \<Rightarrow> err \<times> disk) \<Rightarrow> FileStorage \<Rightarrow> err \<times> FileStorage" where
  "on_disk_of f s = (case f (file_path s) (fs_disk s) of (err, d) \<Rightarrow> (err, s\<lparr>fs_disk := d\<rparr>))"

definition fs_open :: "FileStorage \<Rightarrow> err \<times> FileStorage" where
  "fs_open = on_disk_of os_OpenTrunc"

definition fs_first :: "blob \<Rightarrow> FileStorage \<Rightarrow> FileStorage" where
  "fs_first b s = s\<lparr>fs_disk := os_WriteFirst (file_path s) b (fs_disk s)\<rparr>"

definition fs_rest :: "blob \<Rightarrow> FileStorage \<Rightarrow> err \<times> FileStorage" where
  "fs_rest b = on_disk_of (\<lambda>p. os_WriteRest p b)"

definition fs_chmod :: "FileStorage \<Rightarrow> err \<times> FileStorage" where
  "fs_chmod = on_disk_of (\<lambda>p. os_Chmod p FILE_MODE)"

definition FileStorage_Write :: "blob \<Rightarrow> FileStorage \<Rightarrow> (err \<times> FileStorage) go" where
  "FileStorage_Write buf s =
     go_bind (fs_lock s) (\<lambda>s.
       let (err, s) =
         (case on_disk_of (\<lambda>p. os_WriteFile p buf) s of
            (Some e, s) \<Rightarrow> (Some e, s)
          | (None, s) \<Rightarrow> (case fs_chmod s of (Some e, s) \<Rightarrow> (Some e, s) | (None, s) \<Rightarrow> (None, s)))
       in go_bind (fs_unlock s) (\<lambda>s. Inr (err, s)))"

text \<open>
  The branch for an existing file declares \<open>n, err :=\<close> in an inner scope, so the errors of the
  read and of the decoder are only logged: the result is the error of \<open>os.Stat\<close>.
\<close>

definition FileStorage_Load ::
    "Tailer \<Rightarrow> FileStorage \<Rightarrow> ((err \<times> Tailer) \<times> FileStorage) go" where
  "FileStorage_Load e s =
     (case os_Stat (file_path s) (fs_disk s) of
        Some NotExist \<Rightarrow>
          (case os_Create (file_path s) (fs_disk s) of
             (err, d) \<Rightarrow> Inr ((err, e), s\<lparr>fs_disk := d\<rparr>))
      | st \<Rightarrow>
          (let n = snd (os_ReadFile (file_path s) (fs_disk s));
               e' = snd (gob_decode n e);
               err = (case st of Some (OsError m) \<Rightarrow> Some m | _ \<Rightarrow> None)
           in Inr ((err, e'), s)))"

definition file_storage :: "FileStorage Storage" where
  "file_storage = \<lparr>Encode = FileStorage_Encode, Load = FileStorage_Load, Write = FileStorage_Write\<rparr>"

section \<open>FakeFileStorage\<close>

text \<open>The flags are package variables: they survive from one test to the next.\<close>

record FakeFileStorage =
  fake_path :: string
  IsEncodeCalled :: bool
  IsLoadCalled :: bool
  IsWriteCalled :: bool
  ThrowError :: bool

definition NewFakeFileStorage :: "string \<Rightarrow> FakeFileStorage \<Rightarrow> FakeFileStorage" where
  "NewFakeFileStorage path g = g\<lparr>fake_path := path\<rparr>"

definition Fake_Encode ::
    "Tailer \<Rightarrow> FakeFileStorage \<Rightarrow> ((err \<times> blob) \<times> FakeFileStorage) go" where
  "Fake_Encode data s =
     (let s' = s\<lparr>IsEncodeCalled := True\<rparr> in
      if ThrowError s then
        Inr ((Some ''something went wrong while trying to Encode'', Raw []), s')
      else Inr ((None, Raw []), s'))"

definition Fake_Write :: "blob \<Rightarrow> FakeFileStorage \<Rightarrow> (err \<times> FakeFileStorage) go" where
  "Fake_Write buf s =
     (let s' = s\<lparr>IsWriteCalled := True\<rparr> in
      if ThrowError s then
        Inr (Some ''something went wrong while trying to Write to the file'', s')
      else Inr (None, s'))"

definition Fake_Load ::
    "Tailer \<Rightarrow> FakeFileStorage \<Rightarrow> ((err \<times> Tailer) \<times> FakeFileStorage) go" where
  "Fake_Load data s =
     (let s' = s\<lparr>IsLoadCalled := True\<rparr> in
      if ThrowError s then
        Inr ((Some ''something went wrong while trying to Load data'', data), s')
      else Inr ((None, data), s'))"

definition fake_storage :: "FakeFileStorage Storage" where
  "fake_storage = \<lparr>Encode = Fake_Encode, Load = Fake_Load, Write = Fake_Write\<rparr>"

section \<open>What the tracker relies on\<close>

text \<open>
  \<open>tail_storage\<close>: from an unlocked storage the three operations return, and leave it unlocked.
  \<open>durable_storage\<close>: where the storage is also healthy, what was encoded and written is what the
  next load adds to its destination.
\<close>

locale tail_storage =
  fixes S :: "'s Storage" and free :: "'s \<Rightarrow> bool"
  assumes Encode_returns: "free s \<Longrightarrow> \<exists>r s'. Encode S t s = Inr (r, s') \<and> free s'"
    and Load_returns: "free s \<Longrightarrow> \<exists>r s'. Load S e s = Inr (r, s') \<and> free s'"
    and Write_returns: "free s \<Longrightarrow> \<exists>r s'. Write S b s = Inr (r, s') \<and> free s'"
begin

lemma Encode_free: "free s \<Longrightarrow> Encode S t s = Inr (r, s') \<Longrightarrow> free s'"
  using Encode_returns [of s t] by auto

lemma Load_free: "free s \<Longrightarrow> Load S e s = Inr (r, s') \<Longrightarrow> free s'"
  using Load_returns [of s e] by auto

lemma Write_free: "free s \<Longrightarrow> Write S b s = Inr (r, s') \<Longrightarrow> free s'"
  using Write_returns [of s b] by auto

end

locale durable_storage = tail_storage S free
  for S :: "'s Storage" and free :: "'s \<Rightarrow> bool" +
  fixes healthy :: "'s \<Rightarrow> bool"
  assumes healthy_free: "healthy s \<Longrightarrow> free s"
    and Encode_healthy: "healthy s \<Longrightarrow> \<exists>b s'. Encode S t s = Inr ((None, b), s') \<and> healthy s'"
    and Write_healthy: "healthy s \<Longrightarrow> \<exists>s'. Write S b s = Inr (None, s') \<and> healthy s'"
    and Load_written:
      "healthy s \<Longrightarrow> Encode S t s = Inr ((None, b), s1) \<Longrightarrow> Write S b s1 = Inr (None, s2) \<Longrightarrow>
       Load S e s2 = Inr ((None, e\<lparr>Instances := Instances e ++ Instances t\<rparr>), s2)"

section \<open>The file satisfies the interface\<close>

definition disk_ok :: "string \<Rightarrow> disk \<Rightarrow> bool" where
  "disk_ok p d \<longleftrightarrow> stat_fault d p = None \<and> create_fault d p = None \<and> read_fault d p = None \<and>
     write_fault d p = None \<and> chmod_fault d p = None"

definition fs_free :: "FileStorage \<Rightarrow> bool" where
  "fs_free s \<longleftrightarrow> \<not> writeLock s"

text \<open>\<open>fs_works\<close>: the disk works, whoever holds the lock.\<close>

definition fs_works :: "FileStorage \<Rightarrow> bool" where
  "fs_works s \<longleftrightarrow> disk_ok (file_path s) (fs_disk s)"

definition fs_healthy :: "FileStorage \<Rightarrow> bool" where
  "fs_healthy s \<longleftrightarrow> \<not> writeLock s \<and> fs_works s"

definition fs_stored :: "FileStorage \<Rightarrow> blob option" where
  "fs_stored s = files (fs_disk s) (file_path s)"

definition fs_put :: "blob \<Rightarrow> FileStorage \<Rightarrow> FileStorage" where
  "fs_put b s = s\<lparr>fs_disk := (fs_disk s)\<lparr>files := (files (fs_disk s))(file_path s \<mapsto> b),
                                        modes := (modes (fs_disk s))(file_path s \<mapsto> FILE_MODE)\<rparr>\<rparr>"

lemma fs_put_simps [simp]:
  "file_path (fs_put b s) = file_path s" "writeLock (fs_put b s) = writeLock s"
  "fs_stored (fs_put b s) = Some b" "fs_free (fs_put b s) = fs_free s"
  "fs_healthy (fs_put b s) = fs_healthy s" "fs_works (fs_put b s) = fs_works s"
  by (simp_all add: fs_put_def fs_stored_def fs_free_def fs_healthy_def fs_works_def disk_ok_def)

lemmas fs_piece_defs = fs_open_def fs_first_def fs_rest_def fs_chmod_def on_disk_of_def
  os_OpenTrunc_def os_WriteFirst_def os_WriteRest_def os_Chmod_def

text \<open>What a piece of a write has done, and that it succeeds on a disk that works.\<close>

lemma fs_first_ok [simp]: "fs_works (fs_first b s) = fs_works s" "writeLock (fs_first b s) = writeLock s"
  "fs_stored (fs_first b s) = Some (if fs_stored s = Some (Raw []) then Cut b else Mixed)"
  by (simp_all add: fs_piece_defs fs_works_def disk_ok_def fs_stored_def)

lemma fs_open_done: "fs_open s = (None, d) \<Longrightarrow>
    fs_works d = fs_works s \<and> writeLock d = writeLock s \<and> fs_stored d = Some (Raw [])"
  by (auto simp: fs_piece_defs fs_works_def disk_ok_def fs_stored_def Let_def
      split: option.splits prod.splits)

lemma fs_rest_done: "fs_rest b s = (None, d) \<Longrightarrow>
    fs_works d = fs_works s \<and> writeLock d = writeLock s \<and>
    fs_stored d = Some (if fs_stored s = Some (Cut b) then b else Mixed)"
  by (auto simp: fs_piece_defs fs_works_def disk_ok_def fs_stored_def split: option.splits prod.splits)

lemma fs_chmod_done: "fs_chmod s = (None, d) \<Longrightarrow>
    fs_works d = fs_works s \<and> writeLock d = writeLock s \<and> fs_stored d = fs_stored s"
  by (auto simp: fs_piece_defs fs_works_def disk_ok_def fs_stored_def split: option.splits prod.splits)

lemma fs_pieces_succeed: "fs_works s \<Longrightarrow> \<exists>d. fs_open s = (None, d)"
  "fs_works s \<Longrightarrow> \<exists>d. fs_rest b s = (None, d)" "fs_works s \<Longrightarrow> \<exists>d. fs_chmod s = (None, d)"
  by (simp_all add: fs_piece_defs fs_works_def disk_ok_def Let_def)

lemma fs_lock_simps [simp]:
  "fs_lock s = Inr s' \<longleftrightarrow> \<not> writeLock s \<and> s' = s\<lparr>writeLock := True\<rparr>"
  "fs_unlock s = Inr s' \<longleftrightarrow> writeLock s \<and> s' = s\<lparr>writeLock := False\<rparr>"
  "fs_works (s\<lparr>writeLock := l\<rparr>) = fs_works s" "fs_stored (s\<lparr>writeLock := l\<rparr>) = fs_stored s"
  by (auto simp: fs_lock_def fs_unlock_def fs_works_def fs_stored_def)

lemma FileStorage_Write_healthy [op_simps]:
  "fs_healthy s \<Longrightarrow> FileStorage_Write b s = Inr (None, fs_put b s)"
  by (simp add: fs_healthy_def fs_works_def disk_ok_def FileStorage_Write_def os_WriteFile_def
      fs_piece_defs fs_lock_def fs_unlock_def fs_put_def Let_def)

lemma FileStorage_Write_free [op_simps]:
  "fs_free s \<Longrightarrow> \<exists>r s'. FileStorage_Write b s = Inr (r, s') \<and> fs_free s'"
  by (auto simp: FileStorage_Write_def fs_free_def fs_lock_def fs_unlock_def fs_chmod_def on_disk_of_def
      go_bind_def split: prod.splits option.splits sum.splits)

lemma FileStorage_Load_free [op_simps]:
  "fs_free s \<Longrightarrow> \<exists>r s'. FileStorage_Load e s = Inr (r, s') \<and> fs_free s'"
  by (auto simp: FileStorage_Load_def fs_free_def Let_def
      split: prod.splits option.splits os_error.splits)

lemma FileStorage_Load_found:
  "fs_works s \<Longrightarrow> fs_stored s = Some b \<Longrightarrow>
   FileStorage_Load e s = Inr ((None, snd (gob_decode b e)), s)"
  by (simp add: FileStorage_Load_def fs_works_def disk_ok_def fs_stored_def os_Stat_def
      os_ReadFile_def domI)

lemma FileStorage_Load_creates:
  "fs_works s \<Longrightarrow> fs_stored s = None \<Longrightarrow>
   \<exists>s'. FileStorage_Load e s = Inr ((None, e), s') \<and> fs_works s' \<and> writeLock s' = writeLock s \<and>
     fs_stored s' = Some (Raw [])"
  by (simp add: FileStorage_Load_def fs_works_def disk_ok_def fs_stored_def os_Stat_def
      os_Create_def domIff)

lemma fs_healthy_works: "fs_healthy s \<Longrightarrow> fs_works s"
  by (simp add: fs_healthy_def)

lemmas FileStorage_Load_stored = FileStorage_Load_found [OF fs_healthy_works]

lemma FileStorage_Load_absent:
  "fs_healthy s \<Longrightarrow> fs_stored s = None \<Longrightarrow>
   \<exists>s'. FileStorage_Load e s = Inr ((None, e), s') \<and> fs_healthy s' \<and> fs_stored s' = Some (Raw [])"
  using FileStorage_Load_creates [of s e] by (auto simp: fs_healthy_def)

lemmas file_storage_simps [simp] =
  file_storage_def [THEN arg_cong [where f = Encode], simplified]
  file_storage_def [THEN arg_cong [where f = Load], simplified]
  file_storage_def [THEN arg_cong [where f = Write], simplified]

interpretation fs: tail_storage file_storage fs_free
  by unfold_locales
    (simp_all only: file_storage_simps FileStorage_Write_free FileStorage_Load_free,
     simp add: FileStorage_Encode_def)

interpretation fsd: durable_storage file_storage fs_free fs_healthy
proof (unfold_locales, goal_cases)
  case 1
  then show ?case by (simp add: fs_healthy_def fs_free_def)
next
  case (4 s t b s1 s2 e)
  then have "s2 = fs_put (Gob t) s"
    by (simp add: FileStorage_Encode_def FileStorage_Write_healthy)
  with 4 show ?case by (simp add: FileStorage_Load_stored)
qed (simp_all add: FileStorage_Encode_def FileStorage_Write_healthy)

text \<open>The stand-in of the tests satisfies the first interface, whatever its flags.\<close>

lemmas fake_storage_simps [simp] =
  fake_storage_def [THEN arg_cong [where f = Encode], simplified]
  fake_storage_def [THEN arg_cong [where f = Load], simplified]
  fake_storage_def [THEN arg_cong [where f = Write], simplified]

lemmas fake_defs = Fake_Encode_def Fake_Load_def Fake_Write_def

interpretation fake: tail_storage fake_storage "\<lambda>_. True"
  by unfold_locales (simp_all add: fake_defs Let_def)

end
