(* ===== verification/Tracker.thy ===== *)
theory Tracker
  imports Storage
begin

text \<open>
  \<open>apptail/storage/tail_tracker.go\<close>: the tracker that remembers, per container and log file, how far
  \<open>apptail\<close> has read.  The mutex is a field, so that an operation which locks it twice blocks.
  \<open>dumpState\<close> and the other log calls only print and are left out.  The maps \<open>TailNode\<close> and their
  boxed offsets are created by the tracker and never shared between keys, so they are values here.
\<close>

section \<open>State and primitives\<close>

record 's tracker =
  storage :: "'s Storage"
  backend :: 's
  Cached :: Tailer
  mux :: bool
  debug :: bool

definition NewTracker :: "'s Storage \<Rightarrow> 's \<Rightarrow> bool \<Rightarrow> 's tracker" where
  "NewTracker S s dbg =
     \<lparr>storage = S, backend = s, Cached = \<lparr>Instances = Map.empty\<rparr>, mux = False, debug = dbg\<rparr>"

definition Lock :: "'s tracker \<Rightarrow> 's tracker go" where
  "Lock t = (if mux t then Inl Blocked else Inr (t\<lparr>mux := True\<rparr>))"

definition Unlock :: "'s tracker \<Rightarrow> 's tracker go" where
  "Unlock t =
     (if mux t then Inr (t\<lparr>mux := False\<rparr>)
      else Inl (Panic ''sync: unlock of unlocked mutex''))"

abbreviation insts :: "'s tracker \<Rightarrow> (string \<rightharpoonup> tail_node)" where
  "insts t \<equiv> Instances (Cached t)"

definition set_insts :: "(string \<rightharpoonup> tail_node) \<Rightarrow> 's tracker \<Rightarrow> 's tracker" where
  "set_insts m t = t\<lparr>Cached := (Cached t)\<lparr>Instances := m\<rparr>\<rparr>"

lemma set_insts_simps [simp]:
  "insts (set_insts m t) = m" "mux (set_insts m t) = mux t" "backend (set_insts m t) = backend t"
  "storage (set_insts m t) = storage t" "Cached (set_insts m t) = \<lparr>Instances = m\<rparr>"
  by (simp_all add: set_insts_def)

section \<open>The operations\<close>

definition RegisterInstance :: "string \<Rightarrow> 's tracker \<Rightarrow> 's tracker go" where
  "RegisterInstance instKey t =
     go_bind (Lock t) (\<lambda>t.
       Unlock (if \<not> in_map instKey (insts t)
               then set_insts ((insts t)(instKey \<mapsto> Map.empty)) t
               else t))"

definition IsInstanceRegistered :: "string \<Rightarrow> 's tracker \<Rightarrow> (bool \<times> 's tracker) go" where
  "IsInstanceRegistered instKey t =
     go_bind (Lock t) (\<lambda>t.
       let exist = in_map instKey (insts t) in
       go_bind (Unlock t) (\<lambda>t. Inr (exist, t)))"

definition IsChildNodeInitialized ::
    "string \<Rightarrow> string \<Rightarrow> 's tracker \<Rightarrow> (bool \<times> 's tracker) go" where
  "IsChildNodeInitialized instKey childkey t =
     go_bind (Lock t) (\<lambda>t.
       let exist = (case insts t instKey of
                      None \<Rightarrow> False
                    | Some tailNode \<Rightarrow> in_map childkey tailNode) in
       go_bind (Unlock t) (\<lambda>t. Inr (exist, t)))"

definition InitializeChildNode ::
    "string \<Rightarrow> string \<Rightarrow> int64 \<Rightarrow> 's tracker \<Rightarrow> 's tracker go" where
  "InitializeChildNode instKey childkey offSet t =
     go_bind (Lock t) (\<lambda>t.
       Unlock (case insts t instKey of
                 None \<Rightarrow> t
               | Some tailNode \<Rightarrow>
                   if \<not> in_map childkey tailNode
                   then set_insts ((insts t)(instKey \<mapsto> tailNode(childkey \<mapsto> offSet))) t
                   else t))"

text \<open>
  \<open>&tailNode[fname].V\<close> is the address of a field of the box the map holds; a missing entry is a
  nil pointer and the panic ends the process.
\<close>

definition GetFileCachedOffset ::
    "string \<Rightarrow> string \<Rightarrow> 's tracker \<Rightarrow> (int64 \<times> 's tracker) go" where
  "GetFileCachedOffset instkey fname t =
     go_bind (Lock t) (\<lambda>t.
       case insts t instkey of
         None \<Rightarrow> go_bind (Unlock t) (\<lambda>t. Inr (0, t))
       | Some tailNode \<Rightarrow>
           (case tailNode fname of
              None \<Rightarrow> Inl (Panic ''nil pointer dereference'')
            | Some v \<Rightarrow> go_bind (Unlock t) (\<lambda>t. Inr (v, t))))"

text \<open>The one operation that takes no lock.\<close>

definition Update :: "string \<Rightarrow> string \<Rightarrow> int64 \<Rightarrow> 's tracker \<Rightarrow> 's tracker" where
  "Update instKey childKey childVal t =
     (case insts t instKey of
        None \<Rightarrow> t
      | Some tailNode \<Rightarrow>
          if in_map childKey tailNode
          then set_insts ((insts t)(instKey \<mapsto> tailNode(childKey \<mapsto> childVal))) t
          else t)"

definition getInvalidInstances ::
    "string list \<Rightarrow> (string \<rightharpoonup> bool) \<Rightarrow> (string \<rightharpoonup> bool)" where
  "getInvalidInstances dockerIds allInstances =
     fold (\<lambda>id inv. if \<not> in_map id allInstances then inv(id \<mapsto> True) else inv) dockerIds Map.empty"

text \<open>
  \<open>ks\<close> enumerates \<open>Cached.Instances\<close>; the three loops visit their maps in the orders \<open>ks\<close> and
  \<open>range_keys perm ks _\<close>.
\<close>

definition CleanUp ::
    "(string list \<Rightarrow> string list) \<Rightarrow> string list \<Rightarrow> (string \<rightharpoonup> bool) \<Rightarrow> 's tracker \<Rightarrow> 's tracker go" where
  "CleanUp perm ks validIds t =
     go_bind (Lock t) (\<lambda>t.
       let cachedIds = set_keys True ks Map.empty;
           instancesToRemove = getInvalidInstances (range_keys perm ks cachedIds) validIds
       in Unlock (set_insts (delete_keys (range_keys perm ks instancesToRemove) (insts t)) t))"

definition getBuffer :: "'s tracker \<Rightarrow> ((err \<times> blob) \<times> 's tracker) go" where
  "getBuffer t =
     go_bind (Lock t) (\<lambda>t.
     go_bind (Encode (storage t) (Cached t) (backend t)) (\<lambda>(r, s).
     go_bind (Unlock (t\<lparr>backend := s\<rparr>)) (\<lambda>t. Inr (r, t))))"

definition Commit :: "'s tracker \<Rightarrow> (err \<times> 's tracker) go" where
  "Commit t =
     go_bind (getBuffer t) (\<lambda>((err, bytes), t).
       if err \<noteq> None then Inr (err, t)
       else go_bind (Write (storage t) bytes (backend t)) (\<lambda>(err, s).
              Inr (err, t\<lparr>backend := s\<rparr>)))"

definition Remove :: "string \<Rightarrow> 's tracker \<Rightarrow> 's tracker go" where
  "Remove key t =
     go_bind (Lock t) (\<lambda>t.
     go_bind (Unlock (set_insts ((insts t)(key := None)) t)) (\<lambda>t.
     go_bind (Commit t) (\<lambda>(err, t).
       case err of Some m \<Rightarrow> Inl (Exit m) | None \<Rightarrow> Inr t)))"

definition LoadTailers :: "'s tracker \<Rightarrow> 's tracker go" where
  "LoadTailers t =
     go_bind (Lock t) (\<lambda>t.
     go_bind (Load (storage t) (Cached t) (backend t)) (\<lambda>((_, c), s).
       Unlock (t\<lparr>Cached := c, backend := s\<rparr>)))"

text \<open>The goroutine of \<open>StartSubmissionTimer\<close>, run over what its \<open>select\<close> receives.\<close>

datatype timer_event = Tick | StopSignal

fun submission_timer :: "timer_event list \<Rightarrow> 's tracker \<Rightarrow> 's tracker go" where
  "submission_timer [] t = Inr t"
| "submission_timer (Tick # es) t =
     go_bind (Commit t) (\<lambda>(err, t).
       case err of Some m \<Rightarrow> Inl (Exit m) | None \<Rightarrow> submission_timer es t)"
| "submission_timer (StopSignal # es) t = Inr t"

section \<open>Closed forms on an unlocked tracker\<close>

lemma lock_simps [simp]:
  "\<not> mux t \<Longrightarrow> Lock t = Inr (t\<lparr>mux := True\<rparr>)"
  "mux t \<Longrightarrow> Unlock t = Inr (t\<lparr>mux := False\<rparr>)"
  by (simp_all add: Lock_def Unlock_def)

lemma unlocked_id [simp]: "\<not> mux t \<Longrightarrow> t\<lparr>mux := False\<rparr> = t"
  by simp

lemma set_insts_unlock [simp]:
  "\<not> mux t \<Longrightarrow> (set_insts m (t\<lparr>mux := True\<rparr>))\<lparr>mux := False\<rparr> = set_insts m t"
  by (simp add: set_insts_def)

lemma RegisterInstance_eq [op_simps]:
  "\<not> mux t \<Longrightarrow> RegisterInstance k t =
     Inr (if k \<in> dom (insts t) then t else set_insts ((insts t)(k \<mapsto> Map.empty)) t)"
  by (simp add: RegisterInstance_def)

lemma IsInstanceRegistered_eq [op_simps]:
  "\<not> mux t \<Longrightarrow> IsInstanceRegistered k t = Inr (k \<in> dom (insts t), t)"
  by (simp add: IsInstanceRegistered_def Let_def)

text \<open>The abstract view: the offset remembered for a file of a container.\<close>

definition offset_of :: "'s tracker \<Rightarrow> string \<Rightarrow> string \<Rightarrow> int64 option" where
  "offset_of t k f = (case insts t k of None \<Rightarrow> None | Some node \<Rightarrow> node f)"

lemma IsChildNodeInitialized_eq [op_simps]:
  "\<not> mux t \<Longrightarrow> IsChildNodeInitialized k f t = Inr (offset_of t k f \<noteq> None, t)"
  by (auto simp: IsChildNodeInitialized_def Let_def offset_of_def split: option.splits)

lemma InitializeChildNode_eq [op_simps]:
  "\<not> mux t \<Longrightarrow> InitializeChildNode k f v t =
     Inr (case insts t k of
            None \<Rightarrow> t
          | Some node \<Rightarrow> if node f = None then set_insts ((insts t)(k \<mapsto> node(f \<mapsto> v))) t else t)"
  by (auto simp: InitializeChildNode_def domIff split: option.splits)

lemma GetFileCachedOffset_eq [op_simps]:
  "\<not> mux t \<Longrightarrow> GetFileCachedOffset k f t =
     (if insts t k = None then Inr (0, t)
      else case offset_of t k f of
             None \<Rightarrow> Inl (Panic ''nil pointer dereference'')
           | Some v \<Rightarrow> Inr (v, t))"
  by (auto simp: GetFileCachedOffset_def offset_of_def split: option.splits)

lemma getInvalidInstances_apply [simp]:
  "getInvalidInstances ids all k = (if k \<in> set ids \<and> k \<notin> dom all then Some True else None)"
proof -
  have "fold (\<lambda>id inv. if \<not> in_map id all then inv(id \<mapsto> True) else inv) ids m k =
      (if k \<in> set ids \<and> k \<notin> dom all then Some True else m k)" for m
    by (induction ids arbitrary: m) auto
  then show ?thesis by (simp add: getInvalidInstances_def)
qed

lemma dom_getInvalidInstances [simp]: "dom (getInvalidInstances ids all) = set ids - dom all"
  by (auto simp: dom_def)

lemma CleanUp_eq [op_simps]:
  assumes "\<not> mux t" and "rearranges perm" and "ranges ks (insts t)"
  shows "CleanUp perm ks validIds t = Inr (set_insts (insts t |` dom validIds) t)"
proof -
  let ?inv = "getInvalidInstances (range_keys perm ks (set_keys True ks Map.empty)) validIds"
  have "set (range_keys perm ks ?inv) = dom (insts t) - dom validIds"
    using assms(2,3) by (auto simp: ranges_def)
  then have "delete_keys (range_keys perm ks ?inv) (insts t) = insts t |` dom validIds"
    by (simp add: delete_keys_restrict restrict_map_def fun_eq_iff domIff)
  then show ?thesis
    using assms(1) by (simp add: CleanUp_def Let_def)
qed

section \<open>Calls through the interface Tracker\<close>

text \<open>
  One call of the interface, with every order a \<open>range\<close> may take, and sequences of calls.  The
  result is the tracker the call leaves, or how it stopped.
\<close>

datatype call =
    CallUpdate string string int64
  | CallLoadTailers
  | CallRemove string
  | CallRegisterInstance string
  | CallInitializeChildNode string string int64
  | CallCommit
  | CallIsInstanceRegistered string
  | CallIsChildNodeInitialized string string
  | CallGetFileCachedOffset string string
  | CallCleanUp "string \<rightharpoonup> bool"

definition left :: "('a \<times> 't) go \<Rightarrow> 't go" where
  "left m = go_bind m (\<lambda>(_, t). Inr t)"

lemma left_simps [simp]: "left (Inr (x, t)) = Inr t" "left (Inl e) = Inl e"
  by (simp_all add: left_def)

inductive api :: "'s tracker \<Rightarrow> call \<Rightarrow> 's tracker go \<Rightarrow> bool" where
  Update: "api t (CallUpdate k f v) (Inr (Update k f v t))"
| LoadTailers: "api t CallLoadTailers (LoadTailers t)"
| Remove: "api t (CallRemove k) (Remove k t)"
| RegisterInstance: "api t (CallRegisterInstance k) (RegisterInstance k t)"
| InitializeChildNode: "api t (CallInitializeChildNode k f v) (InitializeChildNode k f v t)"
| Commit: "api t CallCommit (left (Commit t))"
| IsInstanceRegistered: "api t (CallIsInstanceRegistered k) (left (IsInstanceRegistered k t))"
| IsChildNodeInitialized:
    "api t (CallIsChildNodeInitialized k f) (left (IsChildNodeInitialized k f t))"
| GetFileCachedOffset: "api t (CallGetFileCachedOffset k f) (left (GetFileCachedOffset k f t))"
| CleanUp: "rearranges perm \<Longrightarrow> ranges ks (insts t) \<Longrightarrow>
    api t (CallCleanUp ids) (CleanUp perm ks ids t)"

inductive runs :: "'s tracker \<Rightarrow> call list \<Rightarrow> 's tracker go \<Rightarrow> bool" where
  runs_done: "runs t [] (Inr t)"
| runs_step: "api t c (Inr t') \<Longrightarrow> runs t' cs r \<Longrightarrow> runs t (c # cs) r"
| runs_stop: "api t c (Inl e) \<Longrightarrow> runs t (c # cs) (Inl e)"

inductive_cases runs_NilE [elim!]: "runs t [] r"
inductive_cases runs_ConsE: "runs t (c # cs) r"

section \<open>No call blocks\<close>

definition ready :: "'s Storage \<Rightarrow> ('s \<Rightarrow> bool) \<Rightarrow> 's tracker \<Rightarrow> bool" where
  "ready S ok t \<longleftrightarrow> storage t = S \<and> \<not> mux t \<and> ok (backend t)"

definition stays_ready :: "'s Storage \<Rightarrow> ('s \<Rightarrow> bool) \<Rightarrow> 's tracker go \<Rightarrow> bool" where
  "stays_ready S ok r \<longleftrightarrow> (case r of Inl e \<Rightarrow> e \<noteq> Blocked | Inr t \<Rightarrow> ready S ok t)"

lemma stays_ready_simps [simp]:
  "stays_ready S ok (Inl e) \<longleftrightarrow> e \<noteq> Blocked" "stays_ready S ok (Inr t) \<longleftrightarrow> ready S ok t"
  by (simp_all add: stays_ready_def)

lemma ready_set_insts [simp]: "ready S ok (set_insts m t) \<longleftrightarrow> ready S ok t"
  by (simp add: ready_def)

lemma ready_unlocked: "ready S ok t \<Longrightarrow> \<not> mux t"
  by (simp add: ready_def)

lemma Update_insts: "insts (Update k f v t) =
    (case insts t k of
       None \<Rightarrow> insts t
     | Some node \<Rightarrow> if node f = None then insts t else (insts t)(k \<mapsto> node(f \<mapsto> v)))"
  by (auto simp: Update_def domIff split: option.splits)

lemma ready_Update [simp]: "ready S ok (Update k f v t) \<longleftrightarrow> ready S ok t"
  by (simp add: Update_def split: option.splits)

context tail_storage
begin

lemma getBuffer_ready:
  assumes "ready S free t"
  shows "\<exists>r t'. getBuffer t = Inr (r, t') \<and> ready S free t' \<and> Cached t' = Cached t"
proof -
  from assms obtain r s' where "Encode S (Cached t) (backend t) = Inr (r, s')" "free s'"
    using Encode_returns by (fastforce simp: ready_def)
  with assms show ?thesis by (simp add: getBuffer_def ready_def)
qed

lemma Commit_ready:
  assumes "ready S free t"
  shows "\<exists>e t'. Commit t = Inr (e, t') \<and> ready S free t' \<and> Cached t' = Cached t"
proof -
  from getBuffer_ready [OF assms] obtain err b t1
    where g: "getBuffer t = Inr ((err, b), t1)" and t1: "ready S free t1" "Cached t1 = Cached t"
    by auto
  from t1(1) obtain e s' where "Write S b (backend t1) = Inr (e, s')" "free s'"
    using Write_returns by (fastforce simp: ready_def)
  with g t1 show ?thesis by (simp add: Commit_def ready_def)
qed

lemma Remove_ready:
  assumes "ready S free t"
  shows "stays_ready S free (Remove k t)"
proof -
  from assms have "ready S free (set_insts ((insts t)(k := None)) t)" by simp
  from Commit_ready [OF this] obtain e t'
    where "Commit (set_insts ((insts t)(k := None)) t) = Inr (e, t')" "ready S free t'"
    by blast
  with assms show ?thesis
    by (simp add: Remove_def ready_def set_insts_def split: option.split)
qed

lemma LoadTailers_ready:
  assumes "ready S free t"
  shows "stays_ready S free (LoadTailers t)"
proof -
  from assms obtain r c s' where "Load S (Cached t) (backend t) = Inr ((r, c), s')" "free s'"
    using Load_returns by (fastforce simp: ready_def)
  with assms show ?thesis by (simp add: LoadTailers_def ready_def)
qed

lemma api_ready: "api t c r \<Longrightarrow> ready S free t \<Longrightarrow> stays_ready S free r"
proof (induction rule: api.induct)
  case (Commit t)
  then show ?case using Commit_ready by fastforce
next
  case (CleanUp perm ks t ids)
  then show ?case by (simp add: CleanUp_eq ready_unlocked)
qed (auto simp: op_simps ready_unlocked Remove_ready LoadTailers_ready split: option.split)

lemma runs_ready: "runs t cs r \<Longrightarrow> ready S free t \<Longrightarrow> stays_ready S free r"
proof (induction rule: runs.induct)
  case (runs_step t c t' cs r)
  then show ?case using api_ready by fastforce
next
  case (runs_stop t c e cs)
  then show ?case using api_ready by fastforce
qed simp

end

section \<open>What a durable storage gives\<close>

context durable_storage
begin

lemma Commit_durable:
  assumes "ready S healthy t"
  shows "\<exists>t'. Commit t = Inr (None, t') \<and> ready S healthy t' \<and> Cached t' = Cached t \<and>
    (\<forall>e. Load S e (backend t') =
       Inr ((None, e\<lparr>Instances := Instances e ++ insts t\<rparr>), backend t'))"
proof -
  from assms have h: "healthy (backend t)" and m: "\<not> mux t" "storage t = S"
    by (simp_all add: ready_def)
  from Encode_healthy [OF h] obtain b s1
    where enc: "Encode S (Cached t) (backend t) = Inr ((None, b), s1)" and s1: "healthy s1"
    by blast
  from Write_healthy [OF s1] obtain s2 where wr: "Write S b s1 = Inr (None, s2)" "healthy s2"
    by blast
  with enc m show ?thesis
    using Load_written [OF h enc wr(1)] by (simp add: Commit_def getBuffer_def ready_def)
qed

lemma restart_after_Commit:
  assumes "ready S healthy t" and "Commit t = Inr (e, t')"
  shows "\<exists>u. LoadTailers (NewTracker S (backend t') dbg) = Inr u \<and> Cached u = Cached t"
  using Commit_durable [OF assms(1)] assms(2)
  by (auto simp: LoadTailers_def NewTracker_def)

lemma Remove_durable:
  assumes "ready S healthy t"
  shows "\<exists>t'. Remove k t = Inr t' \<and> ready S healthy t' \<and> insts t' = (insts t)(k := None) \<and>
    (\<exists>u. LoadTailers (NewTracker S (backend t') dbg) = Inr u \<and> Cached u = Cached t')"
proof -
  let ?t = "set_insts ((insts t)(k := None)) t"
  from assms have r: "ready S healthy ?t" by simp
  from Commit_durable [OF this] obtain t'
    where c: "Commit ?t = Inr (None, t')" "ready S healthy t'" "Cached t' = Cached ?t"
    by blast
  from assms c(1) have "Remove k t = Inr t'"
    by (simp add: Remove_def ready_def set_insts_def)
  with c restart_after_Commit [OF r c(1)] show ?thesis by auto
qed

end

section \<open>What the calls leave alone\<close>

lemma getBuffer_frame:
  "getBuffer t = Inr (r, t') \<Longrightarrow> Cached t' = Cached t \<and> \<not> mux t' \<and> \<not> mux t \<and> storage t' = storage t"
  by (auto simp: getBuffer_def go_bind_eq_Inr Lock_def Unlock_def split: if_splits)

lemma Commit_frame:
  "Commit t = Inr (e, t') \<Longrightarrow> Cached t' = Cached t \<and> \<not> mux t' \<and> \<not> mux t \<and> storage t' = storage t"
  by (auto simp: Commit_def go_bind_eq_Inr split: if_splits dest!: getBuffer_frame)

lemma Remove_frame:
  "Remove k t = Inr t' \<Longrightarrow> insts t' = (insts t)(k := None) \<and> \<not> mux t' \<and> storage t' = storage t"
  by (auto simp: Remove_def go_bind_eq_Inr Lock_def Unlock_def split: if_splits option.splits
      dest!: Commit_frame)

lemma LoadTailers_frame: "LoadTailers t = Inr t' \<Longrightarrow> \<not> mux t'"
  by (auto simp: LoadTailers_def go_bind_eq_Inr Lock_def Unlock_def split: if_splits)

lemma left_eq_Inr: "left m = Inr t \<longleftrightarrow> (\<exists>x. m = Inr (x, t))"
  by (auto simp: left_def go_bind_eq_Inr)

inductive_cases apiE: "api t c r"

lemma api_unlocked: "api t c (Inr t') \<Longrightarrow> \<not> mux t \<Longrightarrow> \<not> mux t'"
  by (erule apiE)
    (auto simp: op_simps left_eq_Inr Update_def
      dest!: sym [of "Inr t'"] Commit_frame Remove_frame LoadTailers_frame
      split: option.splits if_splits)

section \<open>The guard of tailFile\<close>

text \<open>
  Reading the offset of \<open>f\<close> does not reach the nil pointer: the container is unknown, or the file
  has its box.
\<close>

definition guarded :: "string \<Rightarrow> string \<Rightarrow> 's tracker \<Rightarrow> bool" where
  "guarded k f t \<longleftrightarrow> insts t k = None \<or> offset_of t k f \<noteq> None"

lemma GetFileCachedOffset_guarded:
  "\<not> mux t \<Longrightarrow> guarded k f t \<Longrightarrow>
   GetFileCachedOffset k f t = Inr (case offset_of t k f of None \<Rightarrow> 0 | Some v \<Rightarrow> v, t)"
  by (auto simp: GetFileCachedOffset_eq guarded_def offset_of_def split: option.split)

lemma guarded_insts:
  "insts t' = (insts t)(j := None) \<Longrightarrow> guarded k f t \<Longrightarrow> guarded k f t'"
  "insts t' = insts t |` A \<Longrightarrow> guarded k f t \<Longrightarrow> guarded k f t'"
  by (auto simp: guarded_def offset_of_def restrict_map_def)

lemma api_guarded:
  assumes "api t c (Inr t')" and "\<not> mux t" and "c \<noteq> CallLoadTailers"
    and "c \<noteq> CallRegisterInstance k" and "guarded k f t"
  shows "guarded k f t'"
  using assms(1)
proof cases
  case (Update i g v)
  with assms(5) show ?thesis
    by (auto simp: guarded_def offset_of_def Update_insts split: option.splits)
next
  case (Remove i)
  with assms(5) show ?thesis using guarded_insts(1) Remove_frame by metis
next
  case (CleanUp perm ks ids)
  with assms(2,5) show ?thesis
    using guarded_insts(2) [of "set_insts (insts t |` dom ids) t" t "dom ids" k f]
    by (simp add: CleanUp_eq)
next
  case Commit
  with assms(5) show ?thesis
    by (auto simp: guarded_def offset_of_def left_eq_Inr dest!: sym [of "Inr t'"] Commit_frame)
qed (use assms in \<open>auto simp: op_simps guarded_def offset_of_def left_eq_Inr
       dest!: sym [of "Inr t'"] split: option.splits if_splits\<close>)

lemma runs_guarded:
  "runs t cs r \<Longrightarrow> r = Inr t' \<Longrightarrow> \<not> mux t \<Longrightarrow> guarded k f t \<Longrightarrow>
   CallLoadTailers \<notin> set cs \<Longrightarrow> CallRegisterInstance k \<notin> set cs \<Longrightarrow>
   \<not> mux t' \<and> guarded k f t'"
proof (induction rule: runs.induct)
  case (runs_step t c t1 cs r)
  then have "\<not> mux t1" "guarded k f t1"
    using api_unlocked [of t c t1] api_guarded [of t c t1 k f] by auto
  with runs_step show ?case by simp
qed simp_all

section \<open>The timer\<close>

context durable_storage
begin

lemma submission_timer_durable:
  "ready S healthy t \<Longrightarrow>
   \<exists>t'. submission_timer es t = Inr t' \<and> ready S healthy t' \<and> Cached t' = Cached t"
proof (induction es t rule: submission_timer.induct)
  case (2 es t)
  from Commit_durable [OF "2.prems"] obtain t1
    where "Commit t = Inr (None, t1)" "ready S healthy t1" "Cached t1 = Cached t"
    by blast
  with "2.IH" show ?case by fastforce
qed auto

end

section \<open>Properties\<close>

definition demo_disk :: disk where
  "demo_disk = \<lparr>files = Map.empty, modes = Map.empty, create_mode = 384,
     stat_fault = (\<lambda>_. None), create_fault = (\<lambda>_. None), read_fault = (\<lambda>_. None),
     write_fault = (\<lambda>_. None), chmod_fault = (\<lambda>_. None)\<rparr>"

definition demo_fs :: FileStorage where
  "demo_fs = NewFileStorage ''.apptail.gob'' demo_disk"

definition demo_tracker :: "FileStorage tracker" where
  "demo_tracker =
     set_insts [''c1'' \<mapsto> [''a.log'' \<mapsto> 7], ''c2'' \<mapsto> Map.empty] (NewTracker file_storage demo_fs False)"

lemma demo_fs_ok [simp]: "fs_healthy demo_fs" "\<not> writeLock demo_fs"
  by (simp_all add: demo_fs_def NewFileStorage_def fs_healthy_def fs_works_def disk_ok_def demo_disk_def)

lemma demo_tracker_simps [simp]:
  "insts demo_tracker = [''c1'' \<mapsto> [''a.log'' \<mapsto> 7], ''c2'' \<mapsto> Map.empty]"
  "\<not> mux demo_tracker" "backend demo_tracker = demo_fs" "storage demo_tracker = file_storage"
  by (simp_all add: demo_tracker_def NewTracker_def)

text \<open>
  C4. No sequence of calls of the tracker over the file storage deadlocks on the tracker's mutex
  (every operation that locks it unlocks it on every path, and \<open>Remove\<close> commits only after it has
  unlocked), and when the sequence runs to its end both mutexes are free.
\<close>

theorem tracker_calls_never_block:
  assumes "\<not> writeLock s" and "runs (NewTracker file_storage s dbg) cs r"
  shows "r \<noteq> Inl Blocked \<and> (\<forall>t. r = Inr t \<longrightarrow> \<not> mux t \<and> \<not> writeLock (backend t))"
proof -
  have "ready file_storage fs_free (NewTracker file_storage s dbg)"
    using assms(1) by (simp add: ready_def NewTracker_def fs_free_def)
  with assms(2) have "stays_ready file_storage fs_free r" by (rule fs.runs_ready)
  then show ?thesis by (cases r) (auto simp: ready_def fs_free_def)
qed

theorem tracker_calls_never_block_witness:
  "\<exists>r. runs (NewTracker file_storage demo_fs False) [CallRegisterInstance ''c1'', CallRemove ''c1''] r \<and>
     r \<noteq> Inl Blocked \<and> (\<forall>t. r = Inr t \<longrightarrow> \<not> mux t \<and> \<not> writeLock (backend t))"
proof -
  let ?t = "NewTracker file_storage demo_fs False"
  let ?u = "set_insts [''c1'' \<mapsto> Map.empty] ?t"
  have u: "ready file_storage fs_healthy ?u" by (simp add: ready_def NewTracker_def)
  have "api ?t (CallRegisterInstance ''c1'') (Inr ?u)"
    using api.RegisterInstance [of ?t "''c1''"] by (simp add: op_simps NewTracker_def)
  moreover obtain v where "Remove ''c1'' ?u = Inr v" using fsd.Remove_durable [OF u] by blast
  then have "api ?u (CallRemove ''c1'') (Inr v)" using api.Remove [of ?u "''c1''"] by simp
  ultimately have r: "runs ?t [CallRegisterInstance ''c1'', CallRemove ''c1''] (Inr v)"
    by (blast intro: runs.intros)
  show ?thesis
    using r tracker_calls_never_block [OF demo_fs_ok(2) r] by blast
qed

text \<open>
  Removing a container survives a restart: on a working disk \<open>Remove\<close> succeeds, drops exactly
  that container, and a new tracker that loads the state file has the same contents as the old one.
\<close>

theorem Remove_survives_restart:
  assumes "ready file_storage fs_healthy t"
  shows "\<exists>t' u. Remove k t = Inr t' \<and> insts t' = (insts t)(k := None) \<and>
    LoadTailers (NewTracker file_storage (backend t') dbg) = Inr u \<and> Cached u = Cached t'"
  using fsd.Remove_durable [OF assms] by blast

theorem Remove_survives_restart_witness:
  "\<exists>t' u. Remove ''c2'' demo_tracker = Inr t' \<and> insts t' = [''c1'' \<mapsto> [''a.log'' \<mapsto> 7]] \<and>
     LoadTailers (NewTracker file_storage (backend t') True) = Inr u \<and> Cached u = Cached t'"
proof -
  have "ready file_storage fs_healthy demo_tracker" by (simp add: ready_def)
  from Remove_survives_restart [OF this, of "''c2''" True] show ?thesis by simp
qed

text \<open>
  The check \<open>tailFile\<close> makes before it asks for the offset is enough: once
  \<open>IsChildNodeInitialized\<close> has answered yes, \<open>GetFileCachedOffset\<close> returns (it does not reach the
  nil pointer) after any calls made meanwhile, provided none registers that container anew or
  reloads the file.
\<close>

theorem offset_read_after_check:
  assumes "\<not> mux t" and "IsChildNodeInitialized k f t = Inr (True, t1)"
    and "runs t1 cs (Inr t2)"
    and "CallLoadTailers \<notin> set cs" and "CallRegisterInstance k \<notin> set cs"
  shows "GetFileCachedOffset k f t2 =
    Inr (case offset_of t2 k f of None \<Rightarrow> 0 | Some v \<Rightarrow> v, t2)"
proof -
  from assms(1,2) have "t1 = t" "guarded k f t1"
    by (auto simp: IsChildNodeInitialized_eq guarded_def)
  with runs_guarded [OF assms(3) refl] assms show ?thesis
    by (intro GetFileCachedOffset_guarded) auto
qed

theorem offset_read_after_check_witness:
  "IsChildNodeInitialized ''c1'' ''a.log'' demo_tracker = Inr (True, demo_tracker) \<and>
   (let t2 = Update ''c1'' ''a.log'' 9 demo_tracker in
      GetFileCachedOffset ''c1'' ''a.log'' t2 =
        Inr (case offset_of t2 ''c1'' ''a.log'' of None \<Rightarrow> 0 | Some v \<Rightarrow> v, t2))"
proof -
  let ?cs = "[CallUpdate ''c1'' ''a.log'' 9]"
  have c: "IsChildNodeInitialized ''c1'' ''a.log'' demo_tracker = Inr (True, demo_tracker)"
    by (simp add: IsChildNodeInitialized_eq offset_of_def)
  have r: "runs demo_tracker ?cs (Inr (Update ''c1'' ''a.log'' 9 demo_tracker))"
    by (blast intro: runs.intros api.Update)
  show ?thesis
    using c offset_read_after_check [OF _ c r] by simp
qed

text \<open>
  The check before the read does not survive every schedule: if the container is removed and registered
  again between the check and the read, the read dereferences the nil pointer.
\<close>

theorem offset_read_race_panics:
  "\<exists>t2. runs demo_tracker [CallIsChildNodeInitialized ''c1'' ''a.log'', CallRemove ''c1'',
            CallRegisterInstance ''c1''] (Inr t2) \<and>
     IsChildNodeInitialized ''c1'' ''a.log'' demo_tracker = Inr (True, demo_tracker) \<and>
     GetFileCachedOffset ''c1'' ''a.log'' t2 = Inl (Panic ''nil pointer dereference'')"
proof -
  have c: "IsChildNodeInitialized ''c1'' ''a.log'' demo_tracker = Inr (True, demo_tracker)"
    by (simp add: IsChildNodeInitialized_eq offset_of_def)
  have "ready file_storage fs_healthy demo_tracker" by (simp add: ready_def)
  from fsd.Remove_durable [OF this, of "''c1''"] obtain v
    where v: "Remove ''c1'' demo_tracker = Inr v" "\<not> mux v"
      "insts v = (insts demo_tracker)(''c1'' := None)"
    by (auto simp: ready_def)
  let ?w = "set_insts ((insts v)(''c1'' \<mapsto> Map.empty)) v"
  have "api v (CallRegisterInstance ''c1'') (Inr ?w)"
    using api.RegisterInstance [of v "''c1''"] v by (simp add: op_simps)
  moreover have "api demo_tracker (CallRemove ''c1'') (Inr v)"
    using api.Remove [of demo_tracker "''c1''"] v by simp
  moreover have "api demo_tracker (CallIsChildNodeInitialized ''c1'' ''a.log'') (Inr demo_tracker)"
    using api.IsChildNodeInitialized [of demo_tracker "''c1''" "''a.log''"] c by simp
  ultimately have "runs demo_tracker [CallIsChildNodeInitialized ''c1'' ''a.log'',
      CallRemove ''c1'', CallRegisterInstance ''c1''] (Inr ?w)"
    by (blast intro: runs.intros)
  moreover have "GetFileCachedOffset ''c1'' ''a.log'' ?w = Inl (Panic ''nil pointer dereference'')"
    using v by (simp add: GetFileCachedOffset_eq offset_of_def)
  ultimately show ?thesis using c by blast
qed

text \<open>
  \<open>CleanUp\<close> keeps exactly the containers that are still valid, each with the offsets it had,
  whatever the orders in which its loops visit the maps.
\<close>

theorem CleanUp_keeps_valid:
  assumes "\<not> mux t" and "rearranges perm" and "ranges ks (insts t)"
  shows "\<exists>t'. CleanUp perm ks validIds t = Inr t' \<and> \<not> mux t' \<and>
    dom (insts t') = dom (insts t) \<inter> dom validIds \<and>
    (\<forall>k f. k \<in> dom validIds \<longrightarrow> offset_of t' k f = offset_of t k f)"
  using CleanUp_eq [OF assms] assms(1) by (auto simp: offset_of_def)

theorem CleanUp_keeps_valid_witness:
  "\<exists>t'. CleanUp rev [''c2'', ''c1''] [''c1'' \<mapsto> True, ''c9'' \<mapsto> True] demo_tracker = Inr t' \<and>
     dom (insts t') = {''c1''} \<and> offset_of t' ''c1'' ''a.log'' = Some 7"
proof -
  have r: "ranges [''c2'', ''c1''] (insts demo_tracker)" by (auto simp: ranges_def)
  let ?valid = "[''c1'' \<mapsto> True, ''c9'' \<mapsto> True]"
  from CleanUp_keeps_valid [OF demo_tracker_simps(2) rearranges_rev r, of ?valid]
  obtain t' where "CleanUp rev [''c2'', ''c1''] ?valid demo_tracker = Inr t'"
    and d: "dom (insts t') = dom (insts demo_tracker) \<inter> dom ?valid"
    and e: "\<forall>k f. k \<in> dom ?valid \<longrightarrow> offset_of t' k f = offset_of demo_tracker k f"
    by blast
  moreover from d have "dom (insts t') = {''c1''}" by auto
  moreover from e have "offset_of t' ''c1'' ''a.log'' = Some 7" by (simp add: offset_of_def)
  ultimately show ?thesis by blast
qed

text \<open>
  Between a registration and a removal the tracker remembers the last offset it was told:
  initialising a file does not overwrite, updating an initialised file stores the new offset, and
  no other file's offset moves.
\<close>

theorem offsets_track_updates:
  assumes "\<not> mux t" and "k \<in> dom (insts t)"
  shows "\<exists>t'. InitializeChildNode k f v t = Inr t' \<and>
    offset_of t' k f = Some (case offset_of t k f of None \<Rightarrow> v | Some w \<Rightarrow> w) \<and>
    offset_of (Update k f u t') k f = Some u \<and>
    (\<forall>j g. (j, g) \<noteq> (k, f) \<longrightarrow> offset_of (Update k f u t') j g = offset_of t j g)"
  using assms by (auto simp: InitializeChildNode_eq offset_of_def Update_insts split: option.split)

theorem offsets_track_updates_witness:
  "\<exists>t'. InitializeChildNode ''c2'' ''b.log'' 0 demo_tracker = Inr t' \<and>
     offset_of (Update ''c2'' ''b.log'' 5 t') ''c2'' ''b.log'' = Some 5"
proof -
  have "''c2'' \<in> dom (insts demo_tracker)" by simp
  from offsets_track_updates [OF demo_tracker_simps(2) this, of "''b.log''" 0 5]
  show ?thesis by blast
qed

text \<open>
  Every failure of the storage reaches the caller of \<open>Commit\<close>: a nil result means the encoder
  and the writer both succeeded, and an encoder error leaves the storage unwritten.
\<close>

theorem Commit_reports_errors:
  assumes "Commit t = Inr (err, t')"
  shows "\<exists>eerr b s. Encode (storage t) (Cached t) (backend t) = Inr ((eerr, b), s) \<and>
    (if eerr = None then Write (storage t) b s = Inr (err, backend t')
     else err = eerr \<and> backend t' = s)"
proof -
  from assms obtain eerr b t1
    where g: "getBuffer t = Inr ((eerr, b), t1)"
      and w: "(if eerr \<noteq> None then Inr (eerr, t1)
        else go_bind (Write (storage t1) b (backend t1))
               (\<lambda>(err, s). Inr (err, t1\<lparr>backend := s\<rparr>))) = Inr (err, t')"
    by (auto simp: Commit_def go_bind_eq_Inr)
  from g have "Encode (storage t) (Cached t) (backend t) = Inr ((eerr, b), backend t1)"
    by (auto simp: getBuffer_def go_bind_eq_Inr Lock_def Unlock_def split: if_splits)
  moreover from getBuffer_frame [OF g] w
  have "if eerr = None then Write (storage t) b (backend t1) = Inr (err, backend t')
     else err = eerr \<and> backend t' = backend t1"
    by (auto simp: go_bind_eq_Inr split: if_splits)
  ultimately show ?thesis by blast
qed

theorem Commit_reports_errors_witness:
  "\<exists>t'. Commit (NewTracker fake_storage
         \<lparr>fake_path = ''p'', IsEncodeCalled = False, IsLoadCalled = False, IsWriteCalled = False,
          ThrowError = True\<rparr> False) =
      Inr (Some ''something went wrong while trying to Encode'', t') \<and> \<not> IsWriteCalled (backend t')"
proof -
  let ?s = "\<lparr>fake_path = ''p'', IsEncodeCalled = False, IsLoadCalled = False,
             IsWriteCalled = False, ThrowError = True\<rparr>"
  let ?t = "NewTracker fake_storage ?s False"
  obtain t' where c: "Commit ?t = Inr (Some ''something went wrong while trying to Encode'', t')"
    by (simp add: Commit_def getBuffer_def NewTracker_def fake_defs Let_def)
  from Commit_reports_errors [OF c] c show ?thesis
    by (auto simp: NewTracker_def fake_defs Let_def)
qed

text \<open>
  Loading hides a damaged state file: when the file exists and can be examined, \<open>Load\<close> returns
  no error whatever the read and the decoder say, and a file that does not decode leaves the
  destination as it was.
\<close>

theorem Load_hides_decode_errors:
  assumes "\<not> writeLock s" and "fs_stored s = Some (Raw bytes)"
    and "stat_fault (fs_disk s) (file_path s) = None"
    and "read_fault (fs_disk s) (file_path s) = None"
  shows "FileStorage_Load e s = Inr ((None, e), s) \<and> fst (gob_decode (Raw bytes) e) \<noteq> None"
  using assms by (simp add: FileStorage_Load_def fs_stored_def os_Stat_def os_ReadFile_def domI)

theorem Load_hides_decode_errors_witness:
  "let s = demo_fs\<lparr>fs_disk := demo_disk\<lparr>files := [''.apptail.gob'' \<mapsto> Raw ''x'']\<rparr>\<rparr> in
   FileStorage_Load empty_Tailer s = Inr ((None, empty_Tailer), s) \<and>
   fst (gob_decode (Raw ''x'') empty_Tailer) \<noteq> None"
  unfolding Let_def
  by (rule Load_hides_decode_errors)
    (simp_all add: demo_fs_def NewFileStorage_def demo_disk_def fs_stored_def)

end
