(* ===== verification/Commits.thy ===== *)
theory Commits
  imports Tracker
begin

text \<open>
  The goroutines that commit the tracker (\<open>apptail/storage/tail_tracker.go\<close>): the submission timer
  and every \<open>Remove\<close>.  \<open>Commit\<close> encodes under the tracker's mutex but writes after it has released
  it, so the buffers of several goroutines may be in flight at once; the writes themselves
  (\<open>Write\<close> of \<open>gob_handler.go\<close>) take turns by \<open>writeLock\<close>.  A goroutine is identified by a number;
  \<open>pcs\<close> holds what it is about to do.  A crash may fall between any two steps, hence into a write.
\<close>

section \<open>Commit and Remove in their atomic pieces\<close>

definition delete_key :: "string \<Rightarrow> 's tracker \<Rightarrow> 's tracker go" where
  "delete_key key t =
     go_bind (Lock t) (\<lambda>t. Unlock (set_insts ((insts t)(key := None)) t))"

definition write_buffer :: "blob \<Rightarrow> 's tracker \<Rightarrow> (err \<times> 's tracker) go" where
  "write_buffer bytes t =
     go_bind (Write (storage t) bytes (backend t)) (\<lambda>(err, s). Inr (err, t\<lparr>backend := s\<rparr>))"

lemma Commit_pieces:
  "Commit t = go_bind (getBuffer t) (\<lambda>((err, bytes), t).
     if err \<noteq> None then Inr (err, t) else write_buffer bytes t)"
  unfolding Commit_def write_buffer_def ..

lemma Remove_pieces:
  "Remove k t = go_bind (delete_key k t) (\<lambda>t. go_bind (Commit t) (\<lambda>(err, t).
     case err of Some m \<Rightarrow> Inl (Exit m) | None \<Rightarrow> Inr t))"
  by (simp add: Remove_def delete_key_def go_bind_assoc)

text \<open>
  What a goroutine with a buffer does to the storage, piece by piece, and what is then left to do.  A
  failing piece has no successor: both callers of \<open>Commit\<close> end the process (\<open>log.Fatal\<close>).
\<close>

datatype pc = Encoding | Locking blob | Opening blob | First blob | Rest blob | Moding | Closing

fun buffer_of :: "pc \<Rightarrow> blob option" where
  "buffer_of (Locking b) = Some b"
| "buffer_of (Opening b) = Some b"
| "buffer_of (First b) = Some b"
| "buffer_of (Rest b) = Some b"
| "buffer_of _ = None"

text \<open>The critical section of \<open>writeLock\<close>.\<close>

fun critical :: "pc \<Rightarrow> bool" where
  "critical Encoding = False"
| "critical (Locking b) = False"
| "critical _ = True"

definition if_nil :: "err \<times> FileStorage \<Rightarrow> pc option \<Rightarrow> (FileStorage \<times> pc option) option" where
  "if_nil r p = (case r of (None, s) \<Rightarrow> Some (s, p) | (Some e, s) \<Rightarrow> None)"

fun file_piece :: "pc \<Rightarrow> FileStorage \<Rightarrow> (FileStorage \<times> pc option) option" where
  "file_piece Encoding s = None"
| "file_piece (Locking b) s = (case fs_lock s of Inl _ \<Rightarrow> None | Inr s \<Rightarrow> Some (s, Some (Opening b)))"
| "file_piece (Opening b) s = if_nil (fs_open s) (Some (First b))"
| "file_piece (First b) s = Some (fs_first b s, Some (Rest b))"
| "file_piece (Rest b) s = if_nil (fs_rest b s) (Some Moding)"
| "file_piece Moding s = if_nil (fs_chmod s) (Some Closing)"
| "file_piece Closing s = (case fs_unlock s of Inl _ \<Rightarrow> None | Inr s \<Rightarrow> Some (s, None))"

text \<open>The pieces one after the other are \<open>Write\<close>.\<close>

fun all_pieces :: "nat \<Rightarrow> pc \<Rightarrow> FileStorage \<Rightarrow> FileStorage option" where
  "all_pieces 0 p s = None"
| "all_pieces (Suc n) p s =
     (case file_piece p s of
        None \<Rightarrow> None
      | Some (s, None) \<Rightarrow> Some s
      | Some (s, Some p) \<Rightarrow> all_pieces n p s)"

lemma Write_pieces: "all_pieces 6 (Locking b) s = Some s' \<longleftrightarrow> FileStorage_Write b s = Inr (None, s')"
  by (auto simp: eval_nat_numeral if_nil_def FileStorage_Write_def os_WriteFile_def fs_lock_def
      fs_unlock_def fs_open_def fs_first_def fs_rest_def fs_chmod_def on_disk_of_def Let_def go_bind_def
      split: prod.splits option.splits sum.splits)

section \<open>The interleaved system\<close>

record 's system =
  trk :: "'s tracker"
  pcs :: "nat \<Rightarrow> pc option"

definition start :: "'s tracker \<Rightarrow> 's system" where
  "start t = \<lparr>trk = t, pcs = (\<lambda>_. None)\<rparr>"

definition put :: "nat \<Rightarrow> FileStorage \<Rightarrow> pc option \<Rightarrow> FileStorage system \<Rightarrow> FileStorage system" where
  "put g d p s = s\<lparr>trk := (trk s)\<lparr>backend := d\<rparr>, pcs := (pcs s)(g := p)\<rparr>"

text \<open>
  The other calls of the tracker are one step each, as they keep its mutex while they work; \<open>allowed\<close>
  says which of them are made.
\<close>

inductive gstep_by :: "(call \<Rightarrow> bool) \<Rightarrow> FileStorage system \<Rightarrow> FileStorage system \<Rightarrow> bool" for allowed where
  call: "allowed c \<Longrightarrow> api (trk s) c (Inr t) \<Longrightarrow> c \<noteq> CallCommit \<Longrightarrow> \<forall>k. c \<noteq> CallRemove k \<Longrightarrow>
    gstep_by allowed s (s\<lparr>trk := t\<rparr>)"
| begin_commit: "pcs s g = None \<Longrightarrow> gstep_by allowed s (s\<lparr>pcs := (pcs s)(g := Some Encoding)\<rparr>)"
| begin_remove: "pcs s g = None \<Longrightarrow> delete_key k (trk s) = Inr t \<Longrightarrow>
    gstep_by allowed s (s\<lparr>trk := t, pcs := (pcs s)(g := Some Encoding)\<rparr>)"
| take_buffer: "pcs s g = Some Encoding \<Longrightarrow> getBuffer (trk s) = Inr ((None, b), t) \<Longrightarrow>
    gstep_by allowed s (s\<lparr>trk := t, pcs := (pcs s)(g := Some (Locking b))\<rparr>)"
| put_piece: "pcs s g = Some p \<Longrightarrow> file_piece p (backend (trk s)) = Some (d, p') \<Longrightarrow>
    gstep_by allowed s (put g d p' s)"

inductive_cases gstepE: "gstep_by allowed s s'"

abbreviation gstep :: "FileStorage system \<Rightarrow> FileStorage system \<Rightarrow> bool" where
  "gstep \<equiv> gstep_by (\<lambda>_. True)"

abbreviation stored :: "FileStorage system \<Rightarrow> blob option" where
  "stored s \<equiv> fs_stored (backend (trk s))"

abbreviation sound :: "FileStorage system \<Rightarrow> bool" where
  "sound s \<equiv> ready file_storage fs_works (trk s)"

lemma put_simps [simp]:
  "trk (put g d p s) = (trk s)\<lparr>backend := d\<rparr>" "pcs (put g d p s) = (pcs s)(g := p)"
  "put g d' p' (put g d p s) = put g d' p' s"
  by (simp_all add: put_def)

lemma start_simps [simp]: "trk (start t) = t" "pcs (start t) = (\<lambda>_. None)"
  by (simp_all add: start_def)

section \<open>The pieces on a working disk\<close>

lemma delete_key_eq [op_simps]:
  "\<not> mux t \<Longrightarrow> delete_key k t = Inr (set_insts ((insts t)(k := None)) t)"
  by (simp add: delete_key_def)

lemma getBuffer_file:
  "ready file_storage ok t \<Longrightarrow> getBuffer t = Inr ((None, Gob (Cached t)), t)"
  by (simp add: getBuffer_def ready_def FileStorage_Encode_def)

lemma healthy_works: "ready S fs_healthy t \<Longrightarrow> ready S fs_works t"
  by (simp add: ready_def fs_healthy_works)

lemma LoadTailers_file:
  assumes "ready file_storage fs_works t" and "LoadTailers t = Inr t'"
  shows "ready file_storage fs_works t' \<and> writeLock (backend t') = writeLock (backend t) \<and>
    (fs_stored (backend t') = fs_stored (backend t) \<or>
     fs_stored (backend t) = None \<and> fs_stored (backend t') = Some (Raw []))"
proof (cases "fs_stored (backend t)")
  case None
  with assms show ?thesis
    using FileStorage_Load_creates [of "backend t" "Cached t"]
    by (auto simp: LoadTailers_def ready_def)
next
  case (Some b)
  with assms show ?thesis
    using FileStorage_Load_found [of "backend t" b "Cached t"]
    by (auto simp: LoadTailers_def ready_def)
qed

lemma Update_backend [simp]: "backend (Update k f v t) = backend t"
  by (simp add: Update_def split: option.split)

lemma api_file:
  assumes "api t c (Inr t')" and "ready file_storage fs_works t"
    and "c \<noteq> CallCommit" and "\<forall>k. c \<noteq> CallRemove k"
  shows "ready file_storage fs_works t' \<and> writeLock (backend t') = writeLock (backend t) \<and>
    (fs_stored (backend t') = fs_stored (backend t) \<or>
     fs_stored (backend t) = None \<and> fs_stored (backend t') = Some (Raw []))"
  using assms(1)
proof cases
  case LoadTailers
  with assms(2) LoadTailers_file show ?thesis by metis
next
  case (CleanUp perm ks ids)
  with assms(2) show ?thesis by (simp add: CleanUp_eq ready_unlocked)
qed (use assms ready_unlocked [OF assms(2)] in \<open>auto simp: op_simps left_eq_Inr
       dest!: sym [of "Inr t'"] split: option.splits if_splits\<close>)

section \<open>The discipline of the writers\<close>

text \<open>
  \<open>inside s g\<close>: \<open>g\<close> is in the critical section of the write lock.  \<open>filling s\<close>: someone there has
  emptied the file and not yet completed it.  \<open>holding P Q s\<close>: every buffer in flight satisfies \<open>P\<close>,
  only one goroutine writes at a time, and the file satisfies \<open>Q\<close> whenever nobody is filling it.
\<close>

definition inside :: "FileStorage system \<Rightarrow> nat \<Rightarrow> bool" where
  "inside s g \<longleftrightarrow> (\<exists>p. pcs s g = Some p \<and> critical p)"

definition filling :: "FileStorage system \<Rightarrow> bool" where
  "filling s \<longleftrightarrow> (\<exists>g b. pcs s g = Some (First b) \<or> pcs s g = Some (Rest b))"

definition one_writer :: "FileStorage system \<Rightarrow> bool" where
  "one_writer s \<longleftrightarrow> (\<forall>g h. inside s g \<longrightarrow> inside s h \<longrightarrow> g = h) \<and>
     (writeLock (backend (trk s)) \<longleftrightarrow> (\<exists>g. inside s g)) \<and>
     (\<forall>g b. pcs s g = Some (First b) \<longrightarrow> stored s = Some (Raw [])) \<and>
     (\<forall>g b. pcs s g = Some (Rest b) \<longrightarrow> stored s = Some (Cut b))"

definition in_flight :: "FileStorage system \<Rightarrow> blob \<Rightarrow> bool" where
  "in_flight s b \<longleftrightarrow> (\<exists>g p. pcs s g = Some p \<and> buffer_of p = Some b)"

definition holding :: "(blob \<Rightarrow> bool) \<Rightarrow> (blob \<Rightarrow> bool) \<Rightarrow> FileStorage system \<Rightarrow> bool" where
  "holding P Q s \<longleftrightarrow> sound s \<and> one_writer s \<and> (\<forall>b. in_flight s b \<longrightarrow> P b) \<and>
     (\<not> filling s \<longrightarrow> (\<forall>b. stored s = Some b \<longrightarrow> Q b))"

lemma holding_mono:
  "holding P Q s \<Longrightarrow> (\<And>b. P b \<Longrightarrow> P' b) \<Longrightarrow> (\<And>b. Q b \<Longrightarrow> Q' b) \<Longrightarrow> holding P' Q' s"
  by (auto simp: holding_def)

lemma in_flight_put: "in_flight (put g d p' s) b \<Longrightarrow> in_flight s b \<or> (\<exists>p. p' = Some p \<and> buffer_of p = Some b)"
  by (auto simp: in_flight_def split: if_splits)

text \<open>A piece of a write: what the critical sections and the file look like after it.\<close>

lemma if_nil_Some [simp]: "if_nil r q = Some (d, p') \<longleftrightarrow> r = (None, d) \<and> p' = q"
  by (auto simp: if_nil_def split: prod.splits option.splits)

lemmas pieces_done = fs_open_done fs_rest_done fs_chmod_done

lemma file_piece_works:
  assumes "file_piece p s = Some (d, p')"
  shows "fs_works d = fs_works s \<and> (\<forall>q b. p' = Some q \<longrightarrow> buffer_of q = Some b \<longrightarrow> buffer_of p = Some b)"
  using assms by (cases p) (auto dest: pieces_done split: sum.splits)

lemma file_piece_lock:
  assumes "file_piece p s = Some (d, p')"
  shows "if critical p then writeLock d = (p' \<noteq> None \<and> writeLock s) else \<not> writeLock s \<and> writeLock d \<and> p' \<noteq> None"
    and "(\<exists>q. p' = Some q \<and> critical q) \<longleftrightarrow> p' \<noteq> None"
  using assms by (cases p; auto dest: pieces_done split: sum.splits)+

lemma file_piece_stored:
  assumes "file_piece p s = Some (d, p')"
  shows "p' = Some (First b) \<Longrightarrow> fs_stored d = Some (Raw [])"
    and "p' = Some (Rest b) \<Longrightarrow> p = First b \<and> (fs_stored s = Some (Raw []) \<longrightarrow> fs_stored d = Some (Cut b))"
    and "p = Rest b \<Longrightarrow> fs_stored s = Some (Cut b) \<Longrightarrow> fs_stored d = Some b"
    and "p = Opening b \<Longrightarrow> p' = Some (First b)" "p = First b \<Longrightarrow> p' = Some (Rest b)"
    and "p \<in> {Encoding, Moding, Closing} \<union> range Locking \<Longrightarrow> fs_stored d = fs_stored s"
  using assms by (cases p; auto dest: pieces_done split: sum.splits)+

lemma put_holding:
  assumes h: "holding P Q s" and pq: "\<And>b. P b \<Longrightarrow> Q b"
    and p: "pcs s g = Some p" and d: "file_piece p (backend (trk s)) = Some (d, p')"
  shows "holding P Q (put g d p' s)"
proof -
  let ?s = "put g d p' s"
  from h have w: "fs_works (backend (trk s))" and one: "one_writer s" by (simp_all add: holding_def ready_def)
  note works = file_piece_works [OF d] and lock = file_piece_lock [OF d] and st = file_piece_stored [OF d]
  have snd: "sound ?s" using h works by (simp add: holding_def ready_def)
  have fl: "in_flight ?s b \<Longrightarrow> P b" for b
    using h works p unfolding holding_def in_flight_def by (auto split: if_splits) blast+
  have g_in: "inside s g \<longleftrightarrow> critical p" using p by (simp add: inside_def)
  have ins: "inside ?s h \<longleftrightarrow> (if h = g then p' \<noteq> None else inside s h)" for h
    using lock(2) by (auto simp: inside_def)
  have others: "h \<noteq> g \<Longrightarrow> \<not> inside s h" for h
    using one lock(1) g_in by (cases "critical p") (auto simp: one_writer_def)
  have only: "pcs ?s h = Some (First b) \<or> pcs ?s h = Some (Rest b) \<Longrightarrow> h = g" for h b
    using others [of h] by (auto simp: inside_def split: if_splits)
  have "writeLock d \<longleftrightarrow> p' \<noteq> None"
    using lock one g_in by (auto simp: one_writer_def split: if_splits)
  moreover have "stored ?s = Some (Raw [])" if "pcs ?s h = Some (First b)" for h b
  proof -
    from that have h: "h = g" using only by blast
    with that have q: "p' = Some (First b)" by simp
    with st(1) [OF q] show ?thesis by simp
  qed
  moreover have "stored ?s = Some (Cut b)" if "pcs ?s h = Some (Rest b)" for h b
  proof -
    from that have h: "h = g" using only by blast
    with that have q: "p' = Some (Rest b)" by simp
    from st(2) [OF q] have "p = First b" "stored s = Some (Raw []) \<longrightarrow> fs_stored d = Some (Cut b)" by auto
    with one p q show ?thesis by (auto simp: one_writer_def)
  qed
  moreover have "inside ?s = (\<lambda>h. h = g \<and> p' \<noteq> None)" using ins others by (auto simp: fun_eq_iff)
  ultimately have one': "one_writer ?s" unfolding one_writer_def by simp
  have "Q b" if nf: "\<not> filling ?s" and b: "stored ?s = Some b" for b
  proof -
    from nf have np: "p' \<noteq> Some (First b')" "p' \<noteq> Some (Rest b')" for b'
      by (auto simp: filling_def dest!: spec [of _ g] spec [of _ b'])
    show ?thesis
    proof (cases "\<exists>b'. p = Rest b'")
      case True
      then obtain b' where b': "p = Rest b'" by blast
      with one p have "stored s = Some (Cut b')" by (auto simp: one_writer_def)
      with st(3) b' b have "b = b'" by simp
      moreover have "in_flight s b'" using p b' by (auto simp: in_flight_def intro!: exI [of _ g])
      then have "P b'" using h by (simp add: holding_def)
      ultimately show ?thesis using pq by simp
    next
      case False
      with np st(4,5) have "p \<in> {Encoding, Moding, Closing} \<union> range Locking" by (cases p) auto
      with st(6) b have "stored s = Some b" by simp
      moreover have "\<not> filling s"
      proof
        assume "filling s"
        then obtain h b' where hb: "pcs s h = Some (First b') \<or> pcs s h = Some (Rest b')"
          by (auto simp: filling_def)
        then have "inside s h" by (auto simp: inside_def)
        with others have "h = g" by blast
        with hb p have "p = First b' \<or> p = Rest b'" by auto
        with False st(5) np show False by blast
      qed
      ultimately show ?thesis using h by (auto simp: holding_def)
    qed
  qed
  with snd one' fl show ?thesis by (simp add: holding_def)
qed

lemma holding_frame:
  assumes "holding P Q s" and "ready file_storage fs_works t" and "writeLock (backend t) = writeLock (backend (trk s))"
    and "fs_stored (backend t) = stored s \<or> stored s = None \<and> fs_stored (backend t) = Some (Raw []) \<and> Q (Raw [])"
    and "pcs s' = pcs s \<or> pcs s g \<in> {None, Some Encoding} \<and>
      (pcs s' = (pcs s)(g := Some Encoding) \<or> (\<exists>b. P b \<and> pcs s' = (pcs s)(g := Some (Locking b))))"
    and "trk s' = t"
  shows "holding P Q s'"
proof -
  have pc: "pcs s' h = Some p \<longleftrightarrow> pcs s h = Some p" if "critical p" for h p
    using assms(5) that by (auto split: if_splits)
  then have ins: "inside s' = inside s" by (auto simp: inside_def fun_eq_iff)
  have "one_writer s'"
    using assms(1,3,4,6) pc by (auto simp: holding_def one_writer_def ins)
  moreover have "in_flight s' b \<Longrightarrow> P b" for b
    using assms(1,5) unfolding holding_def in_flight_def by (auto split: if_splits) blast+
  moreover have "filling s' = filling s" using pc by (simp add: filling_def)
  moreover have "\<forall>b. fs_stored (backend t) = Some b \<longrightarrow> Q b" if "\<not> filling s"
    using assms(1,4) that by (cases "stored s") (auto simp: holding_def)
  ultimately show ?thesis using assms(2,6) by (simp add: holding_def)
qed

lemma holding_trk:
  "holding P Q s \<Longrightarrow> ready file_storage fs_works t \<Longrightarrow> backend t = backend (trk s) \<Longrightarrow> holding P Q (s\<lparr>trk := t\<rparr>)"
  by (rule holding_frame [where t = t]) auto

lemma holding_step:
  assumes "gstep_by allowed s s'" and "holding P Q s" and "\<And>b. P b \<Longrightarrow> Q b"
    and "P (Gob (Cached (trk s)))" and "stored s = None \<Longrightarrow> Q (Raw [])"
  shows "holding P Q s'"
proof -
  from assms(2) have snd: "sound s" and m: "\<not> mux (trk s)" by (simp_all add: holding_def ready_def)
  from assms(1) show ?thesis
  proof cases
    case (call c t)
    from api_file [OF call(3) snd call(4,5)] assms(5) show ?thesis
      by (intro holding_frame [OF assms(2), of t]) (auto simp: call(1))
  next
    case (begin_commit g)
    with snd show ?thesis by (intro holding_frame [OF assms(2), of "trk s" _ g]) simp_all
  next
    case (begin_remove g k t)
    with snd show ?thesis
      by (intro holding_frame [OF assms(2), of t _ g]) (auto simp: delete_key_eq [OF m])
  next
    case (take_buffer g b t)
    with snd assms(4) show ?thesis
      by (intro holding_frame [OF assms(2), of t _ g]) (auto simp: getBuffer_file [OF snd])
  next
    case (put_piece g p d p')
    with put_holding [OF assms(2,3)] show ?thesis by blast
  qed
qed

lemma holding_start:
  assumes "ready file_storage fs_healthy t" and "\<And>b. fs_stored (backend t) = Some b \<Longrightarrow> Q b"
  shows "holding P Q (start t)"
  using assms by (auto simp: holding_def one_writer_def in_flight_def inside_def ready_def fs_healthy_def)

text \<open>Whoever does not fill the file is outside, or about to change the mode or to unlock.\<close>

lemma idle_file: "holding P Q s \<Longrightarrow> \<not> writeLock (backend (trk s)) \<Longrightarrow> \<not> filling s"
  by (force simp: holding_def one_writer_def filling_def inside_def)

lemma filling_file:
  "holding P Q s \<Longrightarrow> filling s \<Longrightarrow> stored s = Some (Raw []) \<or> (\<exists>b. stored s = Some (Cut b))"
  by (auto simp: holding_def one_writer_def filling_def)

section \<open>What the file may hold\<close>

text \<open>
  \<open>passed s0 s b\<close>: \<open>b\<close> is the complete encoding of what the tracker held at some state between.
\<close>

definition passed :: "FileStorage system \<Rightarrow> FileStorage system \<Rightarrow> blob \<Rightarrow> bool" where
  "passed s0 s b \<longleftrightarrow> (\<exists>s1. gstep\<^sup>*\<^sup>* s0 s1 \<and> gstep\<^sup>*\<^sup>* s1 s \<and> b = Gob (Cached (trk s1)))"

definition explained :: "FileStorage system \<Rightarrow> FileStorage system \<Rightarrow> blob \<Rightarrow> bool" where
  "explained s0 s b \<longleftrightarrow> stored s0 = Some b \<or> stored s0 = None \<and> b = Raw [] \<or> passed s0 s b"

lemma passed_step: "passed s0 s b \<Longrightarrow> gstep s s' \<Longrightarrow> passed s0 s' b"
  unfolding passed_def by (blast intro: rtranclp.rtrancl_into_rtrancl)

lemma snapshots_step:
  assumes "holding (passed s0 s) (explained s0 s) s" and "gstep s s'" and "gstep\<^sup>*\<^sup>* s0 s"
    and "stored s = None \<Longrightarrow> stored s0 = None"
  shows "holding (passed s0 s') (explained s0 s') s' \<and> (stored s' = None \<longrightarrow> stored s0 = None)"
proof -
  have now: "passed s0 s' (Gob (Cached (trk s)))"
    unfolding passed_def using assms(2,3) by blast
  have "holding (passed s0 s') (explained s0 s') s"
    by (rule holding_mono [OF assms(1)]) (auto simp: explained_def intro: passed_step [OF _ assms(2)])
  from holding_step [OF assms(2) this _ now] assms(4)
  have h: "holding (passed s0 s') (explained s0 s') s'" by (auto simp: explained_def)
  have snd: "sound s" using assms(1) by (simp add: holding_def)
  from assms(2) have "stored s' = None \<longrightarrow> stored s = None"
  proof cases
    case (call c t)
    with api_file [OF call(3) snd] show ?thesis by auto
  next
    case (put_piece g p d p')
    with file_piece_stored [OF put_piece(3)] show ?thesis
      by (cases p) (auto dest: pieces_done split: sum.splits)
  qed (use snd in \<open>auto simp: delete_key_eq ready_unlocked getBuffer_file\<close>)
  with h assms(4) show ?thesis by auto
qed

lemma snapshots_reachable: "gstep\<^sup>*\<^sup>* (start t) s \<Longrightarrow> ready file_storage fs_healthy t \<Longrightarrow>
    holding (passed (start t) s) (explained (start t) s) s \<and> (stored s = None \<longrightarrow> fs_stored (backend t) = None)"
proof (induction rule: rtranclp_induct)
  case base
  then show ?case by (intro conjI holding_start) (auto simp: explained_def)
next
  case (step y z)
  then show ?case using snapshots_step [of "start t" y z] by simp
qed

section \<open>Runs\<close>

text \<open>
  A run of the writing goroutine, from its buffer to the unlocked file; its steps leave what the
  tracker holds alone.
\<close>

definition still_step :: "(call \<Rightarrow> bool) \<Rightarrow> FileStorage system \<Rightarrow> FileStorage system \<Rightarrow> bool" where
  "still_step allowed s s' \<longleftrightarrow> gstep_by allowed s s' \<and> Cached (trk s') = Cached (trk s)"

lemma still_run: "(still_step allowed)\<^sup>*\<^sup>* s s' \<Longrightarrow> (gstep_by allowed)\<^sup>*\<^sup>* s s'"
  by (erule rtranclp_mono [THEN predicate2D, rotated]) (auto simp: still_step_def)

lemma begin_encode:
  assumes "sound s" and "pcs s g = None"
  shows "(still_step allowed)\<^sup>*\<^sup>* s (s\<lparr>pcs := (pcs s)(g := Some (Locking (Gob (Cached (trk s)))))\<rparr>)"
proof -
  let ?s = "s\<lparr>pcs := (pcs s)(g := Some Encoding)\<rparr>"
  have "still_step allowed s ?s"
    using assms(2) by (auto simp: still_step_def intro: begin_commit)
  moreover have "gstep_by allowed ?s (?s\<lparr>trk := trk s, pcs := (pcs ?s)(g := Some (Locking (Gob (Cached (trk s)))))\<rparr>)"
    by (rule take_buffer) (simp_all add: getBuffer_file [OF assms(1)])
  then have "still_step allowed ?s (s\<lparr>pcs := (pcs s)(g := Some (Locking (Gob (Cached (trk s)))))\<rparr>)"
    by (simp add: still_step_def)
  ultimately show ?thesis by (blast intro: converse_rtranclp_into_rtranclp)
qed

lemma remove_encode:
  assumes "sound s" and "pcs s g = None" and "t = set_insts ((insts (trk s))(k := None)) (trk s)"
  shows "(gstep_by allowed)\<^sup>*\<^sup>* s (s\<lparr>trk := t, pcs := (pcs s)(g := Some (Locking (Gob (Cached t))))\<rparr>)"
proof -
  let ?s = "s\<lparr>trk := t, pcs := (pcs s)(g := Some Encoding)\<rparr>"
  have "gstep_by allowed s ?s"
    using assms by (intro begin_remove [where k = k]) (simp_all add: delete_key_eq ready_unlocked)
  moreover have "gstep_by allowed ?s (?s\<lparr>trk := t, pcs := (pcs ?s)(g := Some (Locking (Gob (Cached t))))\<rparr>)"
    using assms by (intro take_buffer) (simp_all add: getBuffer_file)
  ultimately show ?thesis by simp
qed

lemma pieces_are_a_run:
  "all_pieces n p (backend (trk s)) = Some d \<Longrightarrow> pcs s g = Some p \<Longrightarrow> (still_step allowed)\<^sup>*\<^sup>* s (put g d None s)"
proof (induction n arbitrary: p s)
  case (Suc n)
  from Suc.prems(1) obtain d1 p1 where piece: "file_piece p (backend (trk s)) = Some (d1, p1)"
    by (auto split: option.splits)
  with Suc.prems(2) have step: "still_step allowed s (put g d1 p1 s)"
    by (simp add: still_step_def put_piece)
  show ?case
  proof (cases p1)
    case None
    with piece Suc.prems(1) step show ?thesis by auto
  next
    case (Some q)
    with Suc.IH [of q "put g d1 p1 s"] Suc.prems(1) piece
    have "(still_step allowed)\<^sup>*\<^sup>* (put g d1 p1 s) (put g d None (put g d1 p1 s))" by simp
    with step show ?thesis by (simp add: converse_rtranclp_into_rtranclp)
  qed
qed simp

lemma finish_write:
  assumes "ready file_storage fs_healthy (trk s)" and "pcs s g = Some (Locking b)"
  shows "(still_step allowed)\<^sup>*\<^sup>* s (put g (fs_put b (backend (trk s))) None s)"
proof -
  have "all_pieces 6 (Locking b) (backend (trk s)) = Some (fs_put b (backend (trk s)))"
    using assms(1) by (simp add: Write_pieces FileStorage_Write_healthy ready_def)
  from pieces_are_a_run [OF this assms(2)] show ?thesis .
qed

section \<open>After a crash\<close>

text \<open>
  A crash may fall between any two steps.  What is left is the disk: the next process has a
  \<open>FileStorage\<close> of its own, with its lock free, and loads what it finds.
\<close>

definition rebooted :: "FileStorage \<Rightarrow> FileStorage" where
  "rebooted s = NewFileStorage (file_path s) (fs_disk s)"

lemma rebooted_simps [simp]:
  "fs_stored (rebooted s) = fs_stored s" "fs_works (rebooted s) = fs_works s"
  "fs_healthy (rebooted s) = fs_works s"
  by (simp_all add: rebooted_def NewFileStorage_def fs_stored_def fs_works_def fs_healthy_def)

definition loads :: "FileStorage \<Rightarrow> FileStorage tracker \<Rightarrow> bool" where
  "loads s u \<longleftrightarrow> (\<exists>dbg. LoadTailers (NewTracker file_storage s dbg) = Inr u)"

definition instances_in :: "blob option \<Rightarrow> (string \<rightharpoonup> tail_node)" where
  "instances_in b = (case b of Some (Gob c) \<Rightarrow> Instances c | _ \<Rightarrow> Map.empty)"

lemma loads_rebooted:
  assumes "fs_works s" and "loads (rebooted s) u"
  shows "ready file_storage fs_healthy u \<and> insts u = instances_in (fs_stored s) \<and>
    (fs_stored (backend u) = fs_stored s \<or> fs_stored s = None \<and> fs_stored (backend u) = Some (Raw []))"
proof -
  from assms(2) obtain dbg where l: "LoadTailers (NewTracker file_storage (rebooted s) dbg) = Inr u"
    by (auto simp: loads_def)
  show ?thesis
  proof (cases "fs_stored s")
    case None
    with l assms(1) FileStorage_Load_absent [of "rebooted s" "\<lparr>Instances = Map.empty\<rparr>"] show ?thesis
      by (auto simp: LoadTailers_def NewTracker_def instances_in_def ready_def)
  next
    case (Some b)
    with l assms(1) FileStorage_Load_stored [of "rebooted s" b "\<lparr>Instances = Map.empty\<rparr>"] show ?thesis
      by (cases b) (auto simp: LoadTailers_def NewTracker_def instances_in_def ready_def)
  qed
qed

lemma loads_exists: "fs_works s \<Longrightarrow> \<exists>u. LoadTailers (NewTracker file_storage (rebooted s) dbg) = Inr u"
  using FileStorage_Load_absent [of "rebooted s" "\<lparr>Instances = Map.empty\<rparr>"]
    FileStorage_Load_stored [of "rebooted s" _ "\<lparr>Instances = Map.empty\<rparr>"]
  by (cases "fs_stored s") (auto simp: LoadTailers_def NewTracker_def)

section \<open>A removed container stays away\<close>

text \<open>
  \<open>quiet k\<close>: the calls that do not register \<open>k\<close>; a process loads the file once, when it starts.
  \<open>goes_on k\<close>: the goroutines take a step, or the process crashes and the next one starts.
\<close>

definition quiet :: "string \<Rightarrow> call \<Rightarrow> bool" where
  "quiet k c \<longleftrightarrow> c \<noteq> CallRegisterInstance k \<and> c \<noteq> CallLoadTailers"

inductive goes_on :: "string \<Rightarrow> FileStorage system \<Rightarrow> FileStorage system \<Rightarrow> bool" for k where
  runs_on: "gstep_by (quiet k) s s' \<Longrightarrow> goes_on k s s'"
| crashes: "loads (rebooted (backend (trk s))) u \<Longrightarrow> goes_on k s (start u)"

definition without :: "string \<Rightarrow> blob \<Rightarrow> bool" where
  "without k b \<longleftrightarrow> instances_in (Some b) k = None"

lemma without_simps [simp]: "without k (Raw s)" "without k (Cut b)" "without k Mixed"
  "without k (Gob c) \<longleftrightarrow> Instances c k = None"
  by (simp_all add: without_def instances_in_def)

lemma api_quiet:
  assumes "api t c (Inr t')" and "\<not> mux t" and "insts t k = None" and "quiet k c"
    and "c \<noteq> CallCommit" and "\<forall>k. c \<noteq> CallRemove k"
  shows "insts t' k = None"
  using assms(1)
proof cases
  case (CleanUp perm ks ids)
  with assms(2,3) show ?thesis by (simp add: CleanUp_eq restrict_map_def)
qed (use assms in \<open>auto simp: op_simps quiet_def left_eq_Inr Update_insts
       dest!: sym [of "Inr t'"] split: option.splits if_splits\<close>)

lemma gstep_quiet:
  assumes "gstep_by (quiet k) s s'" and "sound s" and "insts (trk s) k = None"
  shows "insts (trk s') k = None"
  using assms(1)
proof cases
  case (call c t)
  with api_quiet [OF call(3) _ assms(3)] ready_unlocked [OF assms(2)] show ?thesis by simp
qed (use assms(2,3) in \<open>auto simp: delete_key_eq ready_unlocked getBuffer_file\<close>)

text \<open>Until \<open>g\<close> has opened the file, nothing is known of what it holds.\<close>

definition early :: "FileStorage system \<Rightarrow> nat \<Rightarrow> bool" where
  "early s g \<longleftrightarrow> (\<exists>b. pcs s g \<in> {Some Encoding, Some (Locking b), Some (Opening b)})"

definition forgetting :: "string \<Rightarrow> nat \<Rightarrow> FileStorage system \<Rightarrow> bool" where
  "forgetting k g s \<longleftrightarrow> insts (trk s) k = None \<and>
     holding (without k) (if early s g then \<lambda>_. True else without k) s"

lemma forgetting_step:
  assumes "gstep_by (quiet k) s s'" and "forgetting k g s"
  shows "forgetting k g s'"
proof -
  from assms(2) have k: "insts (trk s) k = None"
    and h: "holding (without k) (if early s g then \<lambda>_. True else without k) s"
    by (simp_all add: forgetting_def)
  from h have snd: "sound s" by (simp add: holding_def)
  have any: "holding (without k) (\<lambda>_. True) s'"
    by (rule holding_step [OF assms(1) holding_mono [OF h]]) (use k in auto)
  have "holding (without k) (without k) s'" if late: "\<not> early s' g"
  proof (cases "early s g")
    case False
    with h have "holding (without k) (without k) s" by simp
    then show ?thesis by (rule holding_step [OF assms(1)]) (use k in auto)
  next
    case True
    from assms(1) late True have "\<exists>b. pcs s' g = Some (First b)"
    proof cases
      case (put_piece h p d p')
      with late True show ?thesis
        by (cases "h = g"; cases p) (auto simp: early_def split: sum.splits if_splits)
    qed (auto simp: early_def split: if_splits)
    then have "filling s'" by (auto simp: filling_def)
    with any show ?thesis by (simp add: holding_def)
  qed
  with any gstep_quiet [OF assms(1) snd k] show ?thesis by (simp add: forgetting_def)
qed

lemma forgetting_run: "(gstep_by (quiet k))\<^sup>*\<^sup>* s s' \<Longrightarrow> forgetting k g s \<Longrightarrow> forgetting k g s'"
  by (induction rule: rtranclp_induct) (auto intro: forgetting_step)

definition forgotten :: "string \<Rightarrow> FileStorage system \<Rightarrow> bool" where
  "forgotten k s \<longleftrightarrow> insts (trk s) k = None \<and> holding (without k) (without k) s"

lemma forgotten_goes_on: "goes_on k s s' \<Longrightarrow> forgotten k s \<Longrightarrow> forgotten k s'"
proof (induction rule: goes_on.induct)
  case (runs_on s s')
  then have h: "sound s" "insts (trk s) k = None" "holding (without k) (without k) s"
    by (auto simp: forgotten_def holding_def)
  have "holding (without k) (without k) s'"
    by (rule holding_step [OF runs_on(1) h(3)]) (use h(2) in auto)
  with gstep_quiet [OF runs_on(1) h(1,2)] show ?case by (simp add: forgotten_def)
next
  case (crashes s u)
  then have w: "fs_works (backend (trk s))" and h: "holding (without k) (without k) s"
    by (simp_all add: forgotten_def holding_def ready_def)
  have f: "without k b" if "stored s = Some b" for b
    using h filling_file [OF h] that by (cases "filling s") (auto simp: holding_def)
  from loads_rebooted [OF w crashes(1)] have u: "ready file_storage fs_healthy u"
    "insts u = instances_in (stored s)" "fs_stored (backend u) = stored s \<or> fs_stored (backend u) = Some (Raw [])"
    by auto
  from u(2) f have "insts u k = None" by (cases "stored s") (auto simp: without_def instances_in_def)
  moreover have "holding (without k) (without k) (start u)"
    using f u(3) by (intro holding_start [OF u(1)]) auto
  ultimately show ?case by (simp add: forgotten_def)
qed

lemma forgotten_run: "(goes_on k)\<^sup>*\<^sup>* s s' \<Longrightarrow> forgotten k s \<Longrightarrow> forgotten k s'"
  by (induction rule: rtranclp_induct) (auto intro: forgotten_goes_on)

section \<open>Properties\<close>


lemma demo_ready [simp]: "ready file_storage fs_healthy demo_tracker"
  by (simp add: ready_def)

text \<open>The sequential \<open>Remove\<close> is the run in which one goroutine takes all its steps.\<close>

lemma Remove_is_a_run:
  assumes "ready file_storage fs_healthy t" and "Remove k t = Inr t'"
  shows "gstep\<^sup>*\<^sup>* (start t) (start t')"
proof -
  let ?u = "set_insts ((insts t)(k := None)) t"
  let ?s = "\<lparr>trk = ?u, pcs = (\<lambda>_. None)(0 := Some (Locking (Gob (Cached ?u))))\<rparr>"
  have u: "ready file_storage fs_healthy ?u" using assms(1) by simp
  have t': "t' = ?u\<lparr>backend := fs_put (Gob (Cached ?u)) (backend ?u)\<rparr>"
    using assms getBuffer_file [OF u] by (simp add: Remove_pieces delete_key_eq ready_unlocked Commit_pieces
        write_buffer_def FileStorage_Write_healthy ready_def)
  have "gstep\<^sup>*\<^sup>* (start t) ?s"
    using remove_encode [of "start t" 0 ?u k] healthy_works [OF assms(1)] by (simp add: start_def)
  moreover have "gstep\<^sup>*\<^sup>* ?s (put 0 (fs_put (Gob (Cached ?u)) (backend ?u)) None ?s)"
    using finish_write [of ?s 0 "Gob (Cached ?u)"] u by (simp add: still_run)
  moreover have "put 0 (fs_put (Gob (Cached ?u)) (backend ?u)) None ?s = start t'"
    by (simp add: t' put_def start_def)
  ultimately show ?thesis by (metis rtranclp_trans)
qed


text \<open>
  C25. What \<open>Remove\<close> has dropped stays dropped, whatever commits, removals and other calls interleave
  with it and whenever the process crashes: if no buffer in flight holds the container when \<open>Remove\<close>
  deletes it, and it is not registered anew, then from the moment the goroutine of that \<open>Remove\<close> has
  done its commit neither the process nor any that is started on the file knows the container.
\<close>

theorem removed_stays_removed:
  assumes "gstep\<^sup>*\<^sup>* (start t) s0" and "ready file_storage fs_healthy t"
    and "\<forall>b. in_flight s0 b \<longrightarrow> without k b" and "pcs s0 g = None" and "delete_key k (trk s0) = Inr t0"
    and "(gstep_by (quiet k))\<^sup>*\<^sup>* (s0\<lparr>trk := t0, pcs := (pcs s0)(g := Some Encoding)\<rparr>) s1" and "pcs s1 g = None"
    and "(goes_on k)\<^sup>*\<^sup>* s1 s"
  shows "IsInstanceRegistered k (trk s) = Inr (False, trk s)"
proof -
  let ?s = "s0\<lparr>trk := t0, pcs := (pcs s0)(g := Some Encoding)\<rparr>"
  from snapshots_reachable [OF assms(1,2)] assms(3)
  have h: "holding (without k) (\<lambda>_. True) s0" by (auto simp: holding_def)
  then have m: "\<not> mux (trk s0)" by (simp add: holding_def ready_def)
  have "gstep s0 ?s" by (rule begin_remove [OF assms(4,5)])
  then have "holding (without k) (\<lambda>_. True) ?s"
    using h assms(4,5) m by (intro holding_frame [OF h, of t0 _ g]) (auto simp: delete_key_eq holding_def)
  then have "forgetting k g ?s"
    using assms(5) m by (auto simp: forgetting_def early_def delete_key_eq)
  from forgetting_run [OF assms(6) this] assms(7) have "forgotten k s1"
    by (simp add: forgetting_def forgotten_def early_def)
  from forgotten_run [OF assms(8) this] show ?thesis
    by (auto simp: forgotten_def holding_def ready_def IsInstanceRegistered_eq)
qed

theorem removed_stays_removed_witness:
  "\<exists>t0 s1 u. delete_key ''c2'' demo_tracker = Inr t0 \<and>
     (gstep_by (quiet ''c2''))\<^sup>*\<^sup>* ((start demo_tracker)\<lparr>trk := t0, pcs := (\<lambda>_. None)(0 := Some Encoding)\<rparr>) s1 \<and>
     goes_on ''c2'' s1 (start u) \<and> IsInstanceRegistered ''c2'' u = Inr (False, u)"
proof -
  let ?t = "set_insts ((insts demo_tracker)(''c2'' := None)) demo_tracker"
  let ?s = "(start demo_tracker)\<lparr>trk := ?t, pcs := (\<lambda>_. None)(0 := Some Encoding)\<rparr>"
  let ?s' = "?s\<lparr>trk := ?t, pcs := (pcs ?s)(0 := Some (Locking (Gob (Cached ?t))))\<rparr>"
  let ?s1 = "put 0 (fs_put (Gob (Cached ?t)) (backend ?t)) None ?s'"
  have r: "ready file_storage fs_healthy ?t" by (simp add: ready_def)
  have d: "delete_key ''c2'' (trk (start demo_tracker)) = Inr ?t" by (simp add: delete_key_eq)
  have "gstep_by (quiet ''c2'') ?s ?s'"
    by (rule take_buffer) (use getBuffer_file [OF r] in simp_all)
  moreover have "(gstep_by (quiet ''c2''))\<^sup>*\<^sup>* ?s' ?s1"
    using finish_write [of ?s' 0 "Gob (Cached ?t)"] r by (simp add: still_run)
  ultimately have run: "(gstep_by (quiet ''c2''))\<^sup>*\<^sup>* ((start demo_tracker)\<lparr>trk := ?t,
      pcs := (pcs (start demo_tracker))(0 := Some Encoding)\<rparr>) ?s1"
    by (simp add: converse_rtranclp_into_rtranclp)
  have "fs_works (backend (trk ?s1))" using r by (simp add: ready_def fs_healthy_works)
  then obtain u where "loads (rebooted (backend (trk ?s1))) u" using loads_exists unfolding loads_def by blast
  then have u: "goes_on ''c2'' ?s1 (start u)" by (rule crashes)
  have "IsInstanceRegistered ''c2'' (trk (start u)) = Inr (False, trk (start u))"
    by (rule removed_stays_removed [OF rtranclp.rtrancl_refl demo_ready _ _ d run _ r_into_rtranclp [of "goes_on _", OF u]])
      (simp_all add: in_flight_def)
  with d run u show ?thesis by auto
qed

text \<open>
  The condition is needed.  The order of the writes is not the order of the encodings: there is a run
  in which the removal of \<open>c2\<close> has committed, no commit is in flight, and yet the state file holds
  \<open>c2\<close>, because a goroutine that encoded before the removal wrote last.
\<close>

theorem late_write_undoes_Remove:
  "\<exists>s. gstep\<^sup>*\<^sup>* (start demo_tracker) s \<and> pcs s = (\<lambda>_. None) \<and>
     insts (trk s) ''c2'' = None \<and>
     (\<exists>c. stored s = Some (Gob c) \<and> Instances c ''c2'' \<noteq> None)"
proof -
  let ?t = demo_tracker
  let ?u = "set_insts ((insts ?t)(''c2'' := None)) ?t"
  let ?old = "Gob (Cached ?t)"
  obtain s1 where s1: "s1 = \<lparr>trk = ?t, pcs = (\<lambda>_. None)(1 := Some (Locking ?old))\<rparr>"
    by simp
  obtain s2 where s2: "s2 = s1\<lparr>trk := ?u, pcs := (pcs s1)(2 := Some (Locking (Gob (Cached ?u))))\<rparr>"
    by simp
  obtain s3 where s3: "s3 = put 2 (fs_put (Gob (Cached ?u)) (backend (trk s2))) None s2" by simp
  obtain s4 where s4: "s4 = put 1 (fs_put ?old (backend (trk s3))) None s3" by simp
  have "gstep\<^sup>*\<^sup>* (start ?t) s1"
    using begin_encode [of "start ?t" 1, THEN still_run] healthy_works [OF demo_ready] by (simp add: start_def s1)
  also have "gstep\<^sup>*\<^sup>* s1 s2"
    unfolding s2 by (rule remove_encode [where k = "''c2''"]) (simp_all add: s1 healthy_works)
  also (rtranclp_trans) have "gstep\<^sup>*\<^sup>* s2 s3"
    unfolding s3 by (rule finish_write [THEN still_run]) (simp_all add: s2 s1)
  also (rtranclp_trans) have "gstep\<^sup>*\<^sup>* s3 s4"
    unfolding s4 by (rule finish_write [THEN still_run]) (simp_all add: s3 s2 s1 ready_def)
  finally (rtranclp_trans) have "gstep\<^sup>*\<^sup>* (start ?t) s4" .
  moreover have "pcs s4 = (\<lambda>_. None)" by (auto simp: s4 s3 s2 s1)
  moreover have "insts (trk s4) ''c2'' = None" by (simp add: s4 s3 s2)
  moreover have "stored s4 = Some ?old" by (simp add: s4)
  moreover have "Instances (Cached ?t) ''c2'' \<noteq> None" by simp
  ultimately show ?thesis by blast
qed

end
