(* ===== verification/Go_Strings.thy ===== *)
theory Go_Strings
  imports Prelude
begin

text \<open>
  What the program uses of the standard packages \<open>strings\<close>, \<open>path/filepath\<close> (on Unix) and
  \<open>strconv\<close>: splitting, joining and replacing, the lexical cleaning of a path, and the parsing of a
  decimal integer.
\<close>

section \<open>strings\<close>

fun Split :: "char \<Rightarrow> string \<Rightarrow> string list" where
  "Split sep [] = [[]]"
| "Split sep (c # s) =
     (if c = sep then [] # Split sep s
      else case Split sep s of [] \<Rightarrow> [[c]] | p # ps \<Rightarrow> (c # p) # ps)"

text \<open>\<open>strings.SplitN(s, sep, 2)\<close>\<close>

definition SplitN2 :: "char \<Rightarrow> string \<Rightarrow> string list" where
  "SplitN2 sep s =
     (if sep \<in> set s then [takeWhile (\<lambda>c. c \<noteq> sep) s, tl (dropWhile (\<lambda>c. c \<noteq> sep) s)] else [s])"

fun join_with :: "string \<Rightarrow> string list \<Rightarrow> string" where
  "join_with sep [] = []"
| "join_with sep [p] = p"
| "join_with sep (p # q # ps) = p @ sep @ join_with sep (q # ps)"

text \<open>\<open>strings.Replace(s, old, new, 1)\<close> for a non-empty \<open>old\<close>: the first occurrence.\<close>

fun Replace1 :: "string \<Rightarrow> string \<Rightarrow> string \<Rightarrow> string" where
  "Replace1 old new [] = (if old = [] then new else [])"
| "Replace1 old new (c # s) =
     (if HasPrefix (c # s) old then new @ drop (length old) (c # s) else c # Replace1 old new s)"

lemma Split_nonempty [simp]: "Split sep s \<noteq> []"
  by (induction s) (auto split: list.split)

lemma SplitN2_length: "length (SplitN2 sep s) = (if sep \<in> set s then 2 else 1)"
  by (simp add: SplitN2_def)

lemma Split_no_sep: "p \<in> set (Split sep s) \<Longrightarrow> sep \<notin> set p"
proof (induction s arbitrary: p)
  case (Cons c s)
  then show ?case
    by (cases "Split sep s") (auto split: if_splits)
qed simp

lemma join_Split: "join_with [sep] (Split sep s) = s"
proof (induction s)
  case (Cons c s)
  then show ?case
    by (cases "Split sep s"; cases "tl (Split sep s)") auto
qed simp

lemma Replace1_head [simp]: "old \<noteq> [] \<Longrightarrow> Replace1 old new (old @ s) = new @ s"
  by (cases old) (auto simp: HasPrefix_def)

section \<open>path/filepath\<close>

abbreviation (input) slash :: char where
  "slash \<equiv> CHR ''/''"

definition IsAbs :: "string \<Rightarrow> bool" where
  "IsAbs p \<longleftrightarrow> HasPrefix p [slash]"

text \<open>
  \<open>Clean\<close> goes through the elements with the stack of those kept; \<open>..\<close> removes the last one, is
  dropped at the root and kept at the start of a relative path.
\<close>

fun clean_elems :: "bool \<Rightarrow> string list \<Rightarrow> string list \<Rightarrow> string list" where
  "clean_elems rooted [] st = rev st"
| "clean_elems rooted (p # ps) st =
     (if p = [] \<or> p = ''.'' then clean_elems rooted ps st
      else if p = ''..'' then
        (case st of
           [] \<Rightarrow> clean_elems rooted ps (if rooted then [] else [''..''])
         | q # qs \<Rightarrow> clean_elems rooted ps (if q = ''..'' then p # st else qs))
      else clean_elems rooted ps (p # st))"

definition Clean :: "string \<Rightarrow> string" where
  "Clean p =
     (let rooted = IsAbs p;
          q = join_with [slash] (clean_elems rooted (Split slash p) [])
      in if rooted then slash # q else if q = [] then ''.'' else q)"

definition Join :: "string list \<Rightarrow> string" where
  "Join elems =
     (case filter (\<lambda>e. e \<noteq> []) elems of
        [] \<Rightarrow> []
      | es \<Rightarrow> Clean (join_with [slash] es))"

lemma IsAbs_Cons [simp]: "IsAbs (c # s) \<longleftrightarrow> c = slash" "\<not> IsAbs []"
  by (simp_all add: IsAbs_def HasPrefix_def)

text \<open>The elements of a cleaned absolute path: nothing empty, no dots.\<close>

lemma clean_elems_rooted:
  "(\<forall>q \<in> set st. q \<notin> {[], ''.'', ''..''}) \<Longrightarrow> q \<in> set (clean_elems True ps st) \<Longrightarrow>
   q \<notin> {[], ''.'', ''..''} \<and> (q \<in> set st \<or> q \<in> set ps)"
proof (induction ps arbitrary: st)
  case (Cons p ps)
  show ?case
  proof (cases "p = [] \<or> p = ''.''")
    case True
    with Cons show ?thesis by auto
  next
    case False
    show ?thesis
    proof (cases "p = ''..''")
      case True
      with Cons.prems Cons.IH [of "tl st"] show ?thesis
        by (cases st) auto
    next
      case dots: False
      with False Cons.prems Cons.IH [of "p # st"] show ?thesis by auto
    qed
  qed
qed auto

section \<open>strconv.Atoi\<close>

definition is_digit :: "char \<Rightarrow> bool" where
  "is_digit c \<longleftrightarrow> 48 \<le> (of_char c :: nat) \<and> of_char c \<le> (57 :: nat)"

definition ErrSyntax :: string where "ErrSyntax = ''invalid syntax''"
definition ErrRange :: string where "ErrRange = ''value out of range''"

fun parse_uint :: "string \<Rightarrow> nat \<Rightarrow> string + nat" where
  "parse_uint [] n = Inr n"
| "parse_uint (c # s) n =
     (if \<not> is_digit c then Inl ErrSyntax
      else let n' = n * 10 + (of_char c - 48) in
        if 2 ^ 64 \<le> n' then Inl ErrRange else parse_uint s n')"

definition Atoi :: "string \<Rightarrow> string + int" where
  "Atoi s =
     (let neg = HasPrefix s ''-'';
          t = (if neg \<or> HasPrefix s ''+'' then tl s else s)
      in if t = [] then Inl ErrSyntax
         else case parse_uint t 0 of
           Inl e \<Rightarrow> Inl e
         | Inr n \<Rightarrow>
             if \<not> neg \<and> 2 ^ 63 \<le> n \<or> neg \<and> 2 ^ 63 < n then Inl ErrRange
             else Inr (if neg then - int n else int n))"

lemma digit_simps [simp]: "d < 10 \<Longrightarrow> is_digit (digit d)" "d < 10 \<Longrightarrow> of_char (digit d) = 48 + d"
  by (simp_all add: is_digit_def digit_def)

lemma parse_uint_snoc:
  "parse_uint s m = Inr n \<Longrightarrow> d < 10 \<Longrightarrow> n * 10 + d < 2 ^ 64 \<Longrightarrow>
   parse_uint (s @ [digit d]) m = Inr (n * 10 + d)"
  by (induction s m rule: parse_uint.induct) (auto simp: Let_def split: if_splits)

lemma parse_uint_nat_dec: "n < 2 ^ 64 \<Longrightarrow> parse_uint (nat_dec n) 0 = Inr n"
proof (induction n rule: nat_dec.induct)
  case (1 n)
  show ?case
  proof (cases "n < 10")
    case True
    then show ?thesis by (simp add: nat_dec.simps [of n])
  next
    case False
    with 1 have "parse_uint (nat_dec (n div 10)) 0 = Inr (n div 10)" by simp
    from parse_uint_snoc [OF this, of "n mod 10"] 1(2) False show ?thesis
      by (simp add: nat_dec.simps [of n])
  qed
qed

lemma nat_dec_head: "\<exists>d s. nat_dec n = digit d # s \<and> d < 10"
proof (induction n rule: nat_dec.induct)
  case (1 n)
  then show ?case by (cases "n < 10") (auto simp: nat_dec.simps [of n])
qed

lemma digit_not_sign: "d < 10 \<Longrightarrow> digit d \<noteq> CHR ''-'' \<and> digit d \<noteq> CHR ''+''"
proof -
  assume "d < 10"
  then have "(of_char (digit d) :: nat) = 48 + d" by simp
  moreover have "(of_char CHR ''-'' :: nat) = 45" "(of_char CHR ''+'' :: nat) = 43" by simp_all
  ultimately show ?thesis by fastforce
qed

text \<open>The decimal rendering of an \<open>int\<close> parses back to it.\<close>

lemma Atoi_int_dec:
  assumes "in_i64 i"
  shows "Atoi (int_dec i) = Inr i"
proof -
  obtain d s where s: "nat_dec (nat (abs i)) = digit d # s" "d < 10" using nat_dec_head by blast
  have p: "parse_uint (nat_dec (nat (abs i))) 0 = Inr (nat (abs i))"
    using assms by (intro parse_uint_nat_dec) auto
  show ?thesis
  proof (cases "i < 0")
    case True
    then have "nat (abs i) = nat (- i)" by simp
    with True p assms show ?thesis
      by (auto simp: Atoi_def int_dec_def HasPrefix_def Let_def)
  next
    case False
    then have "nat (abs i) = nat i" by simp
    with False p s assms digit_not_sign [OF s(2)] show ?thesis
      by (auto simp: Atoi_def int_dec_def HasPrefix_def Let_def)
  qed
qed

end
