(* ===== verification/Log_Files.thy ===== *)
theory Log_Files
  imports Go_Strings "HOL-Library.AList"
begin

text \<open>
  Which files of a container are tailed and how much of them: \<open>getLogFiles\<close> and \<open>getReadLimit\<close> of
  \<open>apptail/instance.go\<close>, with \<open>apptail/docker/env.go\<close> and \<open>apptail/docker/util.go\<close>.  A Go map is an
  association list with distinct keys; a \<open>range\<close> over it visits the entries in the order a
  parameter \<open>perm\<close> gives.  The file system is known through what the calls return.
\<close>

type_synonym str_map = "(string \<times> string) list"

definition put_all :: "str_map \<Rightarrow> str_map \<Rightarrow> str_map" where
  "put_all kvs m = fold (\<lambda>(k, v). AList.update k v) kvs m"

section \<open>The file system\<close>

datatype io_error = PathError string | OtherError string

text \<open>
  \<open>os_Open\<close> yields what reading the file would give: its content, and the error after it (\<open>None\<close> is
  the end of the file).  \<open>os_Size\<close> is \<open>os.Stat\<close> followed by \<open>Size\<close>.
\<close>

record fsys =
  os_Open :: "string \<Rightarrow> io_error + (string \<times> io_error option)"
  os_Size :: "string \<Rightarrow> string + int64"
  os_Getwd :: "string + string"
  EvalSymlinks :: "string \<Rightarrow> string + string"

definition Abs_path :: "fsys \<Rightarrow> string \<Rightarrow> string + string" where
  "Abs_path F p =
     (if IsAbs p then Inr (Clean p)
      else case os_Getwd F of Inl e \<Rightarrow> Inl e | Inr wd \<Rightarrow> Inr (Join [wd, p]))"

definition readFileLimit :: "fsys \<Rightarrow> string \<Rightarrow> nat \<Rightarrow> io_error + string" where
  "readFileLimit F path limit =
     (case os_Open F path of
        Inl e \<Rightarrow> Inl e
      | Inr (content, rerr) \<Rightarrow>
          if limit \<le> length content then Inr (take limit content)
          else (case rerr of Some e \<Rightarrow> Inl e | None \<Rightarrow> Inr content))"

section \<open>GetDockerAppEnv\<close>

text \<open>\<open>json.Unmarshal\<close> into a \<open>map[string]string\<close> is the parameter \<open>unmarshal\<close>.\<close>

definition GetDockerAppEnv ::
    "fsys \<Rightarrow> (string \<Rightarrow> err \<times> str_map) \<Rightarrow> string \<Rightarrow> str_map \<times> err" where
  "GetDockerAppEnv F unmarshal rootPath =
     (case readFileLimit F (Join [rootPath, ''/home/stackato/etc/droplet.env.json'']) (50 * 1000) of
        Inl (OtherError e) \<Rightarrow> ([], Some e)
      | Inl (PathError e) \<Rightarrow> ([], None)
      | Inr data \<Rightarrow> (case unmarshal data of (err, env) \<Rightarrow> (env, err)))"

section \<open>Instance\<close>

record Instance =
  InstGUID :: string
  InstName :: string
  InstSpace :: string
  IType :: string
  Index :: int64
  DockerId :: string
  RootPath :: string
  LogFiles :: str_map
  DockerStreams :: bool

section \<open>getLogFiles\<close>

text \<open>\<open>parts := strings.SplitN(f, "=", 2); logfiles[parts[0]] = parts[1]\<close>\<close>

definition add_entry :: "string \<Rightarrow> str_map \<Rightarrow> str_map go" where
  "add_entry f logfiles =
     (let parts = SplitN2 (CHR ''='') f in
      if length parts < 2 then Inl (Panic ''index out of range'')
      else Inr (AList.update (parts ! 0) (parts ! 1) logfiles))"

definition show_strings :: "string list \<Rightarrow> string" where
  "show_strings ps = ''['' @ join_with '' '' ps @ '']''"

definition last_parts :: "string list \<Rightarrow> string list" where
  "last_parts parts = (if length parts > 7 then drop (length parts - 7) parts else parts)"

text \<open>The log files asked for, and the timeline events sent meanwhile.\<close>

definition requested ::
    "fsys \<Rightarrow> (string \<Rightarrow> err \<times> str_map) \<Rightarrow> Instance \<Rightarrow> (str_map \<times> string list) go" where
  "requested F unmarshal inst =
     (if length (LogFiles inst) > 0 then Inr (LogFiles inst, [])
      else case GetDockerAppEnv F unmarshal (RootPath inst) of
        (_, Some err) \<Rightarrow> Inr ([], [])
      | (env, None) \<Rightarrow>
          (case map_of env ''STACKATO_LOG_FILES'' of
             None \<Rightarrow> Inr ([], [])
           | Some s \<Rightarrow>
               (let parts = Split (CHR '':'') s;
                    warn = (if length parts > 7
                      then [''WARN -- $STACKATO_LOG_FILES is large; using only last 7 logs: ''
                            @ show_strings (last_parts parts)]
                      else [])
                in go_bind (go_fold add_entry (last_parts parts) []) (\<lambda>logfiles.
                     Inr (logfiles, warn)))))"

text \<open>One entry: the path it resolves to, or the warning sent instead.\<close>

definition secure_path :: "fsys \<Rightarrow> string \<Rightarrow> string \<Rightarrow> string + string" where
  "secure_path F root path =
     (let fullpath = (if \<not> IsAbs path then Join [root, ''/home/stackato/'', path]
                      else Join [root, path]) in
      case Abs_path F fullpath of
        Inl _ \<Rightarrow> Inl (''WARN -- Failed to find absolute path for '' @ path)
      | Inr fullpath \<Rightarrow>
          (case EvalSymlinks F fullpath of
             Inl _ \<Rightarrow> Inl (''WARN -- Ignoring missing/inaccessible path '' @ path)
           | Inr fullpath \<Rightarrow>
               if \<not> HasPrefix fullpath root
               then Inl (''WARN -- Ignoring missing/inaccessible path '' @ path)
               else Inr fullpath))"

definition secure_entry ::
    "fsys \<Rightarrow> string \<Rightarrow> string \<times> string \<Rightarrow> str_map \<times> string list \<Rightarrow> str_map \<times> string list" where
  "secure_entry F root e a =
     (case secure_path F root (snd e) of
        Inl w \<Rightarrow> (fst a, snd a @ [w])
      | Inr fullpath \<Rightarrow> (AList.update (fst e) fullpath (fst a), snd a))"

definition getLogFiles ::
    "fsys \<Rightarrow> (string \<Rightarrow> err \<times> str_map) \<Rightarrow> ((string \<times> string) list \<Rightarrow> (string \<times> string) list) \<Rightarrow>
     Instance \<Rightarrow> (str_map \<times> string list) go" where
  "getLogFiles F unmarshal perm inst =
     go_bind (requested F unmarshal inst) (\<lambda>(logfiles, warned).
       let (logfilesSecure, warned) =
             fold (secure_entry F (RootPath inst)) (perm logfiles) ([], warned);
           none = (if length logfilesSecure = 0 \<and> \<not> DockerStreams inst
                   then [''ERROR -- No valid log files detected for tailing''] else [])
       in Inr (logfilesSecure, warned @ none))"

section \<open>getReadLimit\<close>

text \<open>The result is the limit and the error; the second list holds the timeline events sent.\<close>

definition getReadLimit ::
    "fsys \<Rightarrow> int64 \<Rightarrow> string \<Rightarrow> string \<Rightarrow> ((int64 \<times> err) \<times> string list) go" where
  "getReadLimit F FileSizeLimit logname filename =
     (let filesizeLimit = FileSizeLimit * 1024 * 1024 in
      if \<not> 0 <s filesizeLimit then Inl (Panic ''invalid value for `read_limit' in apptail config'')
      else if length filename = 0 then Inr ((filesizeLimit, None), [])
      else case os_Size F filename of
        Inl e \<Rightarrow> Inr ((- 1, Some (''Cannot stat file ('' @ filename @ ''); '' @ e)), [])
      | Inr sz \<Rightarrow>
          if filesizeLimit <s sz
          then Inr ((filesizeLimit, None),
                 [''Skipping much of a large log file ('' @ logname @ ''); size ('' @ i64_dec sz @
                  '' bytes) > read_limit ('' @ i64_dec filesizeLimit @ '' bytes)''])
          else Inr ((sz, None), []))"

section \<open>The result does not depend on the order of the maps\<close>

definition resolved :: "fsys \<Rightarrow> string \<Rightarrow> str_map \<Rightarrow> (string \<rightharpoonup> string)" where
  "resolved F root logfiles name =
     (case map_of logfiles name of
        None \<Rightarrow> None
      | Some path \<Rightarrow> (case secure_path F root path of Inl _ \<Rightarrow> None | Inr p \<Rightarrow> Some p))"

lemma secure_entries:
  "distinct (map fst xs) \<Longrightarrow>
   map_of (fst (fold (secure_entry F root) xs a)) =
     map_of (fst a) ++ resolved F root xs"
proof (induction xs arbitrary: a)
  case Nil
  then show ?case by (simp add: resolved_def [abs_def] map_add_def)
next
  case (Cons x xs)
  then have "map_of xs (fst x) = None" by (simp add: map_of_eq_None_iff)
  with Cons show ?case
    by (auto simp: secure_entry_def resolved_def [abs_def] map_add_def update_conv' fun_eq_iff
        split: sum.split option.split)
qed

lemma rearranges_map:
  assumes "rearranges perm" and "distinct (map fst xs)"
  shows "distinct (map fst (perm xs))" "map_of (perm xs) = map_of xs"
proof -
  have m: "mset (map fst (perm xs)) = mset (map fst xs)"
    using assms(1) by (simp add: rearranges_def)
  then show d: "distinct (map fst (perm xs))"
    using assms(2) mset_eq_imp_distinct_iff by blast
  show "map_of (perm xs) = map_of xs"
    using map_of_inject_set [OF d assms(2)] assms(1) by (simp add: rearranges_set)
qed

lemma secure_path_prefix: "secure_path F root path = Inr p \<Longrightarrow> HasPrefix p root"
  by (auto simp: secure_path_def Let_def split: sum.splits if_splits)

lemma add_entries_distinct:
  "go_fold add_entry fs m = Inr m' \<Longrightarrow> distinct (map fst m) \<Longrightarrow> distinct (map fst m')"
proof (induction fs arbitrary: m)
  case (Cons f fs)
  then show ?case
    by (auto simp: go_bind_eq_Inr add_entry_def Let_def distinct_update split: if_splits)
qed simp

lemma requested_distinct:
  "distinct (map fst (LogFiles inst)) \<Longrightarrow> requested F unmarshal inst = Inr (logfiles, w) \<Longrightarrow>
   distinct (map fst logfiles)"
  by (auto simp: requested_def go_bind_eq_Inr Let_def dest: add_entries_distinct
      split: if_splits prod.splits option.splits)

lemma getLogFiles_resolved:
  assumes "getLogFiles F unmarshal perm inst = Inr (m, w)" and "rearranges perm"
    and "distinct (map fst (LogFiles inst))"
  shows "\<exists>logfiles w0. requested F unmarshal inst = Inr (logfiles, w0) \<and>
    map_of m = resolved F (RootPath inst) logfiles"
proof -
  from assms(1) obtain logfiles w0
    where r: "requested F unmarshal inst = Inr (logfiles, w0)"
      and m: "m = fst (fold (secure_entry F (RootPath inst)) (perm logfiles) ([], w0))"
    by (auto simp: getLogFiles_def go_bind_eq_Inr Let_def case_prod_unfold)
  have d: "distinct (map fst logfiles)" using requested_distinct [OF assms(3) r] .
  from secure_entries [OF rearranges_map(1) [OF assms(2) d], of F "RootPath inst" "([], w0)"] m
  have "map_of m = resolved F (RootPath inst) (perm logfiles)" by simp
  moreover have "resolved F (RootPath inst) (perm logfiles) = resolved F (RootPath inst) logfiles"
    by (simp add: resolved_def [abs_def] rearranges_map(2) [OF assms(2) d])
  ultimately show ?thesis using r by auto
qed

section \<open>The entries of STACKATO_LOG_FILES\<close>

lemma add_entry_eq:
  "add_entry f m = (if CHR ''='' \<in> set f
     then Inr (AList.update (takeWhile (\<lambda>c. c \<noteq> CHR ''='') f) (tl (dropWhile (\<lambda>c. c \<noteq> CHR ''='') f)) m)
     else Inl (Panic ''index out of range''))"
  by (simp add: add_entry_def SplitN2_length Let_def) (simp add: SplitN2_def)

lemma add_entries_panic:
  "(\<exists>f \<in> set fs. CHR ''='' \<notin> set f) \<Longrightarrow> go_fold add_entry fs m = Inl (Panic ''index out of range'')"
proof (induction fs arbitrary: m)
  case (Cons f fs)
  then show ?case by (cases "CHR ''='' \<in> set f") (auto simp: add_entry_eq)
qed simp

lemma add_entries_total:
  "\<forall>f \<in> set fs. CHR ''='' \<in> set f \<Longrightarrow> \<exists>m'. go_fold add_entry fs m = Inr m'"
proof (induction fs arbitrary: m)
  case (Cons f fs)
  then show ?case by (auto simp: add_entry_eq)
qed simp

lemma add_entries_length:
  "go_fold add_entry fs m = Inr m' \<Longrightarrow> length m' \<le> length m + length fs"
proof (induction fs arbitrary: m)
  case (Cons f fs)
  then obtain k v where "go_fold add_entry fs (AList.update k v m) = Inr m'"
    by (auto simp: add_entry_eq [of f] split: if_splits)
  then have "length m' \<le> length (AList.update k v m) + length fs" by (rule Cons.IH)
  moreover have "length (AList.update k v m) \<le> Suc (length m)"
    by (induction m) auto
  ultimately show ?case by simp
qed simp

lemma last_parts_length: "length (last_parts ps) \<le> 7"
  by (simp add: last_parts_def)

section \<open>Properties\<close>

definition demo_fsys :: fsys where
  "demo_fsys = \<lparr>os_Open = (\<lambda>_. Inr (''{}'', None)), os_Size = (\<lambda>_. Inr 10),
     os_Getwd = Inr ''/'', EvalSymlinks = (\<lambda>p. Inr p)\<rparr>"

definition demo_instance :: Instance where
  "demo_instance = \<lparr>InstGUID = ''g1'', InstName = ''env'', InstSpace = ''s1'', IType = ''app'', Index = 0,
     DockerId = ''0123456789abcdef'', RootPath = ''/c1'', LogFiles = [(''a'', ''/x''), (''b'', ''/y'')],
     DockerStreams = False\<rparr>"

text \<open>
  C10. The log files of an instance are those requested whose path, made absolute under the root of
  the container and with its symbolic links resolved, starts with that root; the result does not
  depend on the order in which the maps are visited.
\<close>

theorem getLogFiles_are_secure:
  assumes "getLogFiles F unmarshal perm inst = Inr (m, w)" and "rearranges perm"
    and "distinct (map fst (LogFiles inst))"
  shows "\<exists>logfiles w0. requested F unmarshal inst = Inr (logfiles, w0) \<and>
    map_of m = resolved F (RootPath inst) logfiles \<and>
    (\<forall>name p. map_of m name = Some p \<longrightarrow> HasPrefix p (RootPath inst))"
proof -
  from getLogFiles_resolved [OF assms] obtain logfiles w0
    where "requested F unmarshal inst = Inr (logfiles, w0)"
      "map_of m = resolved F (RootPath inst) logfiles"
    by blast
  moreover from this(2) have "map_of m name = Some p \<Longrightarrow> HasPrefix p (RootPath inst)" for name p
    by (auto simp: resolved_def secure_path_prefix split: option.splits sum.splits)
  ultimately show ?thesis by blast
qed

theorem getLogFiles_are_secure_witness:
  "\<exists>m w. getLogFiles demo_fsys (\<lambda>_. (None, [])) rev demo_instance = Inr (m, w) \<and>
     (\<forall>name p. map_of m name = Some p \<longrightarrow> HasPrefix p ''/c1'')"
proof -
  obtain m w where g: "getLogFiles demo_fsys (\<lambda>_. (None, [])) rev demo_instance = Inr (m, w)"
    by (simp add: getLogFiles_def requested_def demo_instance_def case_prod_unfold Let_def)
  have "distinct (map fst (LogFiles demo_instance))" by (simp add: demo_instance_def)
  from getLogFiles_are_secure [OF g rearranges_rev this] g show ?thesis
    by (auto simp: demo_instance_def)
qed

text \<open>
  A log path outside the container cannot be told from a missing one: both send the user the
  same warning, and neither is tailed.
\<close>

theorem outside_path_looks_missing:
  assumes "EvalSymlinks F p = Inr q" and "\<not> HasPrefix q root"
    and "EvalSymlinks G p = Inl e" and "os_Getwd F = os_Getwd G"
    and "Abs_path F (if IsAbs path then Join [root, path] else Join [root, ''/home/stackato/'', path]) = Inr p"
  shows "secure_path F root path = secure_path G root path \<and>
    secure_path F root path = Inl (''WARN -- Ignoring missing/inaccessible path '' @ path)"
proof -
  have "Abs_path G = Abs_path F" by (simp add: Abs_path_def fun_eq_iff assms(4))
  with assms show ?thesis by (cases "IsAbs path") (simp_all add: secure_path_def)
qed

theorem outside_path_looks_missing_witness:
  "secure_path (demo_fsys\<lparr>EvalSymlinks := \<lambda>_. Inr ''/etc/passwd''\<rparr>) ''/c1'' ''/x'' =
     Inl (''WARN -- Ignoring missing/inaccessible path '' @ ''/x'')"
proof -
  let ?out = "demo_fsys\<lparr>EvalSymlinks := \<lambda>_. Inr ''/etc/passwd''\<rparr>"
  let ?missing = "demo_fsys\<lparr>EvalSymlinks := \<lambda>_. Inl ''no such file''\<rparr>"
  have "IsAbs (Join [''/c1'', ''/x''])"
    by (simp add: Join_def Clean_def Let_def)
  then have a: "Abs_path ?out (if IsAbs ''/x'' then Join [''/c1'', ''/x'']
       else Join [''/c1'', ''/home/stackato/'', ''/x'']) = Inr (Clean (Join [''/c1'', ''/x'']))"
    by (simp add: Abs_path_def)
  have "secure_path ?out ''/c1'' ''/x'' = secure_path ?missing ''/c1'' ''/x'' \<and>
      secure_path ?out ''/c1'' ''/x'' = Inl (''WARN -- Ignoring missing/inaccessible path '' @ ''/x'')"
    by (rule outside_path_looks_missing [where q = "''/etc/passwd''", OF _ _ _ _ a])
      (simp_all add: HasPrefix_eval)
  then show ?thesis by (rule conjunct2)
qed

text \<open>
  The test of the root compares strings, not path elements: for a container rooted at
  \<open>/containers/c1\<close>, a symbolic link into the sibling \<open>/containers/c10\<close> passes it.
\<close>

theorem sibling_directory_accepted:
  "secure_path (demo_fsys\<lparr>EvalSymlinks := \<lambda>_. Inr ''/containers/c10/secret''\<rparr>) ''/containers/c1'' ''/link'' =
     Inr ''/containers/c10/secret''"
proof -
  have "IsAbs (Join [''/containers/c1'', ''/link''])"
    by (simp add: Join_def Clean_def Let_def)
  then show ?thesis
    by (simp add: secure_path_def Abs_path_def demo_fsys_def HasPrefix_def)
qed

text \<open>
  C35. The variable \<open>STACKATO_LOG_FILES\<close> of the application decides whether its log files can be
  determined: if one of the last seven entries has no \<open>=\<close> (an empty value has one empty entry),
  \<open>getLogFiles\<close> panics, and the process with it; otherwise at most seven files are requested.
\<close>

theorem log_files_variable:
  assumes "LogFiles inst = []" and "GetDockerAppEnv F unmarshal (RootPath inst) = (env, None)"
    and "map_of env ''STACKATO_LOG_FILES'' = Some s"
  shows "if \<exists>f \<in> set (last_parts (Split (CHR '':'') s)). CHR ''='' \<notin> set f
     then getLogFiles F unmarshal perm inst = Inl (Panic ''index out of range'')
     else (\<exists>logfiles w. requested F unmarshal inst = Inr (logfiles, w) \<and> length logfiles \<le> 7)"
proof (cases "\<exists>f \<in> set (last_parts (Split (CHR '':'') s)). CHR ''='' \<notin> set f")
  case True
  then have "go_fold add_entry (last_parts (Split (CHR '':'') s)) [] = Inl (Panic ''index out of range'')"
    by (rule add_entries_panic)
  with True assms show ?thesis by (simp add: getLogFiles_def requested_def Let_def)
next
  case False
  then obtain logfiles where m: "go_fold add_entry (last_parts (Split (CHR '':'') s)) [] = Inr logfiles"
    using add_entries_total by blast
  have "length logfiles \<le> 7"
    using add_entries_length [OF m] last_parts_length [of "Split (CHR '':'') s"] by simp
  with False m assms show ?thesis by (auto simp: requested_def Let_def)
qed

theorem log_files_variable_witness:
  "getLogFiles demo_fsys (\<lambda>_. (None, [(''STACKATO_LOG_FILES'', [])])) rev
     (demo_instance\<lparr>LogFiles := []\<rparr>) = Inl (Panic ''index out of range'')"
proof -
  let ?un = "\<lambda>_::string. (None :: err, [(''STACKATO_LOG_FILES'', [])])"
  have "GetDockerAppEnv demo_fsys ?un (RootPath (demo_instance\<lparr>LogFiles := []\<rparr>)) =
      ([(''STACKATO_LOG_FILES'', [])], None)"
    by (simp add: GetDockerAppEnv_def readFileLimit_def demo_fsys_def)
  from log_files_variable [OF _ this, of "[]" rev] show ?thesis
    by (simp add: last_parts_def)
qed

text \<open>
  C36. For every configured limit from 1 MB up to 2^43 - 1 MB the read limit does not panic and is the
  smaller of the limit in bytes and the size of the file; a file without a name gets the limit.
\<close>

theorem read_limit_is_minimum:
  assumes "0 < sint FileSizeLimit" and "sint FileSizeLimit < 2 ^ 43"
    and "os_Size F filename = Inr sz" and "0 \<le> sint sz"
  shows "\<exists>limit w. getReadLimit F FileSizeLimit logname filename = Inr ((limit, None), w) \<and>
    sint limit = (if filename = [] then sint FileSizeLimit * 2 ^ 20
                  else min (sint sz) (sint FileSizeLimit * 2 ^ 20))"
proof -
  let ?l = "FileSizeLimit * 1024 * 1024"
  have "sint (FileSizeLimit * 1024) = sint FileSizeLimit * 1024"
    using assms(1,2) by (subst sint_i64_mul) simp_all
  then have l: "sint ?l = sint FileSizeLimit * 2 ^ 20"
    using assms(1,2) by (subst sint_i64_mul) simp_all
  with assms(1) have "0 <s ?l" by (simp add: word_sless_alt)
  then show ?thesis
    using assms(3,4) l by (auto simp: getReadLimit_def Let_def word_sless_alt)
qed

theorem read_limit_is_minimum_witness:
  "\<exists>limit w. getReadLimit demo_fsys 16 ''app'' ''/c1/x'' = Inr ((limit, None), w) \<and> sint limit = 10"
proof -
  have "os_Size demo_fsys ''/c1/x'' = Inr 10" by (simp add: demo_fsys_def)
  from read_limit_is_minimum [OF _ _ this, of 16 "''app''"] show ?thesis by simp
qed

text \<open>
  The conversion of the configured limit to bytes wraps around: a limit of 2^44 + 1 MB passes
  the check and reads one megabyte, and one of 2^43 MB stops the process with the message that the
  value is invalid.
\<close>

theorem read_limit_wraps:
  "getReadLimit F (2 ^ 44 + 1) logname [] = Inr ((1048576, None), []) \<and>
   getReadLimit F (2 ^ 43) logname [] = Inl (Panic ''invalid value for `read_limit' in apptail config'')"
  by (simp add: getReadLimit_def word_sless_alt Let_def)

end
