(* ===== verification/Common.thy ===== *)
theory Common
  imports Prelude
begin

text \<open>
  Package \<open>common\<close> (\<open>common/messagecommon.go\<close>, \<open>common/syslogmessage.go\<close>) and the event type of
  \<open>sieve/event.go\<close>.  A \<open>time.Time\<close> is known through the two methods the code calls on it.
\<close>

record GoTime =
  Unix :: int64
  Format :: "string \<Rightarrow> string"

text \<open>A line delivered by the tail library; an error marks a line the library itself produced.\<close>

record tail_line =
  LText :: string
  LTime :: GoTime
  LErr :: err

section \<open>syslogMessage and MessageCommon\<close>

definition DEFAULT_SYSLOG_PRIORITY :: string where
  "DEFAULT_SYSLOG_PRIORITY = ''13''"

definition Stamp :: string where
  "Stamp = ''Jan _2 15:04:05''" \<comment> \<open>time.Stamp\<close>

record syslogMessage =
  Priority :: string
  SysTime :: string

definition newSyslogMessage :: "string \<Rightarrow> GoTime \<Rightarrow> syslogMessage" where
  "newSyslogMessage pri t = \<lparr>Priority = pri, SysTime = Format t Stamp\<rparr>"

record MessageCommon =
  Text :: string
  NodeID :: string
  UnixTime :: int64
  HumanTime :: string
  Syslog :: syslogMessage

definition toHerokuTime :: "GoTime \<Rightarrow> string" where
  "toHerokuTime t = Format t ''2006-01-02T15:04:05-07:00''"

definition NewMessageCommon :: "string \<Rightarrow> GoTime \<Rightarrow> string \<Rightarrow> MessageCommon" where
  "NewMessageCommon text t node =
     \<lparr>Text = text, NodeID = node, UnixTime = Unix t, HumanTime = toHerokuTime t,
      Syslog = newSyslogMessage DEFAULT_SYSLOG_PRIORITY t\<rparr>"

text \<open>The zero value an embedded \<open>MessageCommon\<close> has before it is assigned.\<close>

definition zero_MessageCommon :: MessageCommon where
  "zero_MessageCommon =
     \<lparr>Text = [], NodeID = [], UnixTime = 0, HumanTime = [], Syslog = \<lparr>Priority = [], SysTime = []\<rparr>\<rparr>"

lemma NewMessageCommon_simps [simp]:
  "Text (NewMessageCommon x t n) = x" "NodeID (NewMessageCommon x t n) = n"
  "UnixTime (NewMessageCommon x t n) = Unix t"
  by (simp_all add: NewMessageCommon_def)

section \<open>JSON values\<close>

text \<open>
  JSON values, with whole numbers that fit a \<open>float64\<close>.  A number is written either as an integer
  (\<open>JNum\<close>) or with a fraction or exponent (\<open>JExp\<close>, by its value), and a Go integer takes only the first form.
\<close>

datatype json =
    JNull | JBool bool | JNum int | JExp int | JString string
  | JArr "json list" | JObj "(string \<times> json) list"

text \<open>
  In an \<open>interface{}\<close> every number is a \<open>float64\<close>: rounded to 53 bits, half to even.  \<open>encoding/json\<close>
  of the time wrote one back in the shortest \<open>%g\<close> form, with an exponent from \<open>1e+06\<close> on.  \<open>iface\<close> is a
  value as it is encoded again after it was decoded into an \<open>interface{}\<close>.
\<close>

fun excess_bits :: "nat \<Rightarrow> nat" where
  "excess_bits n = (if n < 2 ^ 53 then 0 else Suc (excess_bits (n div 2)))"

declare excess_bits.simps [simp del]

definition to_float64 :: "int \<Rightarrow> int" where
  "to_float64 i =
     (let scale = 2 ^ excess_bits (nat \<bar>i\<bar>);
          m = \<bar>i\<bar> div scale;
          r = \<bar>i\<bar> mod scale;
          up = (scale < 2 * r \<or> 2 * r = scale \<and> odd m)
      in sgn i * (if up then m + 1 else m) * scale)"

text \<open>Integers of at most 53 bits are \<open>float64\<close> values.\<close>

lemma to_float64_exact: "\<bar>i\<bar> < 2 ^ 53 \<Longrightarrow> to_float64 i = i"
  by (simp add: to_float64_def excess_bits.simps [of "nat \<bar>i\<bar>"] nat_less_iff sgn_mult_abs)

lemma to_float64_rounds: "to_float64 (2 ^ 53 + 1) = 2 ^ 53" "to_float64 (2 ^ 53 + 3) = 2 ^ 53 + 4"
  by (simp_all add: to_float64_def excess_bits.simps)

definition float_json :: "int \<Rightarrow> json" where
  "float_json i = (if \<bar>i\<bar> < 1000000 then JNum i else JExp (to_float64 i))"

fun iface :: "json \<Rightarrow> json" where
  "iface (JNum i) = float_json i"
| "iface (JExp i) = float_json i"
| "iface (JArr js) = JArr (map iface js)"
| "iface (JObj kvs) = JObj (map (\<lambda>kv. (fst kv, iface (snd kv))) kvs)"
| "iface j = j"

definition iface_members :: "(string \<times> json) list \<Rightarrow> (string \<times> json) list" where
  "iface_members kvs = map (\<lambda>kv. (fst kv, iface (snd kv))) kvs"

lemma fst_iface_members [simp]: "map fst (iface_members kvs) = map fst kvs"
  by (simp add: iface_members_def)

lemma iface_members_empty [simp]: "iface_members [] = []" "iface_members kvs = [] \<longleftrightarrow> kvs = []"
  by (simp_all add: iface_members_def)

section \<open>sieve.Event\<close>

record Event =
  Type :: string
  Desc :: string
  Severity :: string
  Info :: "(string \<times> json) list"
  Process :: string
  Common :: MessageCommon

text \<open>The keys under which the two kinds of records are published.\<close>

definition event_key :: "Event \<Rightarrow> string" where
  "event_key e = ''event.'' @ Type e"

section \<open>Loading a configuration\<close>

text \<open>\<open>server.NewConfig\<close> yields the configuration or an error; the loaders differ in the message.\<close>

definition load_config :: "string \<Rightarrow> string + 'c \<Rightarrow> 'c go" where
  "load_config msg r = (case r of Inl e \<Rightarrow> Inl (Exit (msg @ e)) | Inr c \<Rightarrow> Inr c)"

lemma load_config_simps [simp]:
  "load_config msg (Inr c) = Inr c" "load_config msg (Inl e) = Inl (Exit (msg @ e))"
  by (simp_all add: load_config_def)

end
