(* ===== verification/Utf8.thy ===== *)
theory Utf8
  imports Prelude
begin

text \<open>
  UTF-8 as the language and \<open>unicode/utf8\<close> define it: decoding one rune, where a byte that does not
  start a well-formed sequence yields \<open>RuneError\<close> and is one byte wide, the conversions \<open>[]rune(s)\<close>
  and \<open>string(runes)\<close>, and \<open>utf8.ValidString\<close>.  \<open>apptail/message/message.go\<close> and
  \<open>systail/cmd/systail/main.go\<close> use them to repair log lines.
\<close>

section \<open>Runes\<close>

definition RuneError :: nat where
  "RuneError = 0xFFFD"

definition scalar :: "nat \<Rightarrow> bool" where
  "scalar r \<longleftrightarrow> r < 0xD800 \<or> 0xE000 \<le> r \<and> r < 0x110000"

text \<open>The length of the sequence a byte starts, and the range of its second byte.\<close>

definition lead :: "nat \<Rightarrow> (nat \<times> nat \<times> nat) option" where
  "lead b =
     (if 0xC2 \<le> b \<and> b \<le> 0xDF then Some (2, 0x80, 0xBF)
      else if b = 0xE0 then Some (3, 0xA0, 0xBF)
      else if b = 0xED then Some (3, 0x80, 0x9F)
      else if 0xE1 \<le> b \<and> b \<le> 0xEF then Some (3, 0x80, 0xBF)
      else if b = 0xF0 then Some (4, 0x90, 0xBF)
      else if 0xF1 \<le> b \<and> b \<le> 0xF3 then Some (4, 0x80, 0xBF)
      else if b = 0xF4 then Some (4, 0x80, 0x8F)
      else None)"

definition cont :: "nat \<Rightarrow> bool" where
  "cont b \<longleftrightarrow> 0x80 \<le> b \<and> b \<le> 0xBF"

fun DecodeRune :: "nat list \<Rightarrow> nat \<times> nat" where
  "DecodeRune [] = (RuneError, 0)"
| "DecodeRune (b0 # bs) =
     (if b0 < 0x80 then (b0, 1)
      else case (lead b0, bs) of
        (Some (n, lo, hi), b1 # bs1) \<Rightarrow>
          if \<not> (lo \<le> b1 \<and> b1 \<le> hi) then (RuneError, 1)
          else if n = 2 then (b0 mod 32 * 64 + b1 mod 64, 2)
          else (case bs1 of
            [] \<Rightarrow> (RuneError, 1)
          | b2 # bs2 \<Rightarrow>
              if \<not> cont b2 then (RuneError, 1)
              else if n = 3 then (b0 mod 16 * 4096 + b1 mod 64 * 64 + b2 mod 64, 3)
              else (case bs2 of
                [] \<Rightarrow> (RuneError, 1)
              | b3 # _ \<Rightarrow>
                  if \<not> cont b3 then (RuneError, 1)
                  else (b0 mod 8 * 262144 + b1 mod 64 * 4096 + b2 mod 64 * 64 + b3 mod 64, 4)))
      | _ \<Rightarrow> (RuneError, 1))"

definition EncodeRune :: "nat \<Rightarrow> nat list" where
  "EncodeRune r =
     (if r < 0x80 then [r]
      else if r < 0x800 then [0xC0 + r div 64, 0x80 + r mod 64]
      else if \<not> scalar r then [0xEF, 0xBF, 0xBD]
      else if r < 0x10000 then [0xE0 + r div 4096, 0x80 + r div 64 mod 64, 0x80 + r mod 64]
      else [0xF0 + r div 262144, 0x80 + r div 4096 mod 64, 0x80 + r div 64 mod 64, 0x80 + r mod 64])"

lemma DecodeRune_size: "bs \<noteq> [] \<Longrightarrow> 0 < snd (DecodeRune bs)"
  by (cases bs) (auto split: option.splits list.splits)

lemma DecodeRune_pos: "(r, n) = DecodeRune bs \<Longrightarrow> bs \<noteq> [] \<Longrightarrow> 0 < n"
  using DecodeRune_size by (metis snd_conv)

function runes_of :: "nat list \<Rightarrow> nat list" where
  "runes_of bs =
     (if bs = [] then []
      else case DecodeRune bs of (r, n) \<Rightarrow> r # runes_of (drop n bs))"
  by pat_completeness auto

termination
  by (relation "measure length") (auto dest: DecodeRune_pos)

function valid_bytes :: "nat list \<Rightarrow> bool" where
  "valid_bytes bs =
     (if bs = [] then True
      else case DecodeRune bs of (r, n) \<Rightarrow>
        if r = RuneError \<and> n = 1 then False else valid_bytes (drop n bs))"
  by pat_completeness auto

termination
  by (relation "measure length") (auto dest: DecodeRune_pos)

declare runes_of.simps [simp del] valid_bytes.simps [simp del]

section \<open>Strings\<close>

definition bytes_of :: "string \<Rightarrow> nat list" where
  "bytes_of s = map of_char s"

definition of_bytes :: "nat list \<Rightarrow> string" where
  "of_bytes bs = map char_of bs"

definition runes :: "string \<Rightarrow> nat list" where
  "runes s = runes_of (bytes_of s)"

definition string_of :: "nat list \<Rightarrow> string" where
  "string_of rs = of_bytes (concat (map EncodeRune rs))"

definition ValidString :: "string \<Rightarrow> bool" where
  "ValidString s \<longleftrightarrow> valid_bytes (bytes_of s)"

section \<open>One rune\<close>

lemma mod_lead:
  "x < 32 \<Longrightarrow> (0xC0 + x) mod 32 = (x::nat)" "x < 16 \<Longrightarrow> (0xE0 + x) mod 16 = x"
  "x < 8 \<Longrightarrow> (0xF0 + x) mod 8 = x" "x < 64 \<Longrightarrow> (0x80 + x) mod 64 = x"
  using mod_add_left_eq [of "0xC0" 32 x] mod_add_left_eq [of "0xE0" 16 x]
    mod_add_left_eq [of "0xF0" 8 x] mod_add_left_eq [of "0x80" 64 x]
  by simp_all

text \<open>
  \<open>codes u r\<close>: the bytes \<open>u\<close> are the shortest encoding of the rune \<open>r\<close>, written by the digits of
  \<open>r\<close> to the base 64.
\<close>

inductive codes :: "nat list \<Rightarrow> nat \<Rightarrow> bool" where
  one: "x < 0x80 \<Longrightarrow> codes [x] x"
| two: "2 \<le> x \<Longrightarrow> x < 32 \<Longrightarrow> y < 64 \<Longrightarrow> codes [0xC0 + x, 0x80 + y] (x * 64 + y)"
| three: "x < 16 \<Longrightarrow> y < 64 \<Longrightarrow> z < 64 \<Longrightarrow> (x = 0 \<longrightarrow> 32 \<le> y) \<Longrightarrow> (x = 13 \<longrightarrow> y < 32) \<Longrightarrow>
    codes [0xE0 + x, 0x80 + y, 0x80 + z] (x * 4096 + y * 64 + z)"
| four: "x < 5 \<Longrightarrow> y < 64 \<Longrightarrow> z < 64 \<Longrightarrow> w < 64 \<Longrightarrow> (x = 0 \<longrightarrow> 16 \<le> y) \<Longrightarrow> (x = 4 \<longrightarrow> y < 16) \<Longrightarrow>
    codes [0xF0 + x, 0x80 + y, 0x80 + z, 0x80 + w] (x * 262144 + y * 4096 + z * 64 + w)"

lemma Decode_codes: "codes u r \<Longrightarrow> DecodeRune (u @ bs) = (r, length u)"
  by (induction rule: codes.induct) (auto simp: lead_def cont_def mod_lead)

lemma div64: "y < 64 \<Longrightarrow> r = x * 64 + y \<Longrightarrow> r div 64 = (x::nat) \<and> r mod 64 = y"
  by simp

lemma div_digits: "(r::nat) div 4096 = r div 64 div 64" "r div 262144 = r div 64 div 64 div 64"
  by (simp_all add: div_mult2_eq [symmetric])

lemma Encode_codes: "codes u r \<Longrightarrow> EncodeRune r = u"
proof (induction rule: codes.induct)
  case (two x y)
  with div64 [of y "x * 64 + y" x] show ?case by (simp add: EncodeRune_def)
next
  case (three x y z)
  then obtain r where r: "r = x * 4096 + y * 64 + z" by simp
  with three have q: "r div 64 = x * 64 + y" "r mod 64 = z"
    using div64 [of z r "x * 64 + y"] by simp_all
  with three have "r div 64 div 64 = x" "r div 64 mod 64 = y"
    using div64 [of y "r div 64" x] by simp_all
  moreover consider "x \<le> 12" | "x = 13" | "14 \<le> x" by linarith
  then have "scalar r" using three r by cases (auto simp: scalar_def)
  moreover have "0x800 \<le> r" "r < 0x10000" using three r by auto
  ultimately have "EncodeRune r = [0xE0 + x, 0x80 + y, 0x80 + z]"
    using q(2) by (simp add: EncodeRune_def div_digits)
  with r show ?case by simp
next
  case (four x y z w)
  then obtain r where r: "r = x * 262144 + y * 4096 + z * 64 + w" by simp
  with four have q: "r div 64 = x * 4096 + y * 64 + z" "r mod 64 = w"
    using div64 [of w r "x * 4096 + y * 64 + z"] by simp_all
  with four have p: "r div 64 div 64 = x * 64 + y" "r div 64 mod 64 = z"
    using div64 [of z "r div 64" "x * 64 + y"] by simp_all
  with four have "r div 64 div 64 div 64 = x" "r div 64 div 64 mod 64 = y"
    using div64 [of y "r div 64 div 64" x] by simp_all
  moreover have "0x10000 \<le> r" "scalar r" using four r by (auto simp: scalar_def)
  ultimately have "EncodeRune r = [0xF0 + x, 0x80 + y, 0x80 + z, 0x80 + w]"
    using q(2) p(2) by (simp add: EncodeRune_def div_digits)
  with r show ?case by simp
qed (simp add: EncodeRune_def)

text \<open>Every rune Go encodes has such an encoding: what is no scalar value is encoded as \<open>RuneError\<close>.\<close>

lemma digit64: obtains x y where "(r::nat) = x * 64 + y" "y < 64"
  using that [of "r div 64" "r mod 64"] by simp

lemma codes_scalar: assumes "scalar r" shows "\<exists>u. codes u r"
proof -
  obtain q w where q: "r = q * 64 + w" "w < 64" by (rule digit64)
  obtain p z where p: "q = p * 64 + z" "z < 64" by (rule digit64)
  obtain x y where x: "p = x * 64 + y" "y < 64" by (rule digit64)
  consider "r < 0x80" | "0x80 \<le> r" "r < 0x800" | "0x800 \<le> r" "r < 0x10000" | "0x10000 \<le> r"
    by linarith
  then show ?thesis
  proof cases
    case 1
    then show ?thesis by (blast intro: one)
  next
    case 2
    with q two [of q w] show ?thesis by auto
  next
    case 3
    with assms q p have "codes [0xE0 + p, 0x80 + z, 0x80 + w] (p * 4096 + z * 64 + w)"
      by (intro three) (auto simp: scalar_def)
    moreover have "r = p * 4096 + z * 64 + w" using q p by simp
    ultimately show ?thesis by blast
  next
    case 4
    with assms q p x have "codes [0xF0 + x, 0x80 + y, 0x80 + z, 0x80 + w] (x * 262144 + y * 4096 + z * 64 + w)"
      by (intro four) (auto simp: scalar_def)
    moreover have "r = x * 262144 + y * 4096 + z * 64 + w" using q p x by simp
    ultimately show ?thesis by blast
  qed
qed

lemma codes_Encode: "\<exists>r'. codes (EncodeRune r) r'"
proof (cases "scalar r")
  case True
  with codes_scalar [of r] Encode_codes show ?thesis by blast
next
  case False
  then have "EncodeRune r = EncodeRune RuneError"
    by (simp add: EncodeRune_def RuneError_def scalar_def)
  moreover have "scalar RuneError" by (simp add: scalar_def RuneError_def)
  ultimately show ?thesis using codes_scalar [of RuneError] Encode_codes by metis
qed

text \<open>A byte between \<open>lo\<close> and \<open>lo + n\<close> is \<open>lo\<close> plus its low bits.\<close>

lemma byte_digit: "lo \<le> b \<Longrightarrow> b < lo + n \<Longrightarrow> \<exists>x. b = lo + x \<and> x < (n::nat)"
  by (intro exI [of _ "b - lo"]) auto

lemma codes_Decode:
  assumes "DecodeRune bs = (r, n)" and "bs \<noteq> []" and "\<not> (r = RuneError \<and> n = 1)"
  shows "\<exists>u rest. bs = u @ rest \<and> n = length u \<and> codes u r"
proof -
  obtain b0 bs0 where bs: "bs = b0 # bs0" using assms(2) by (cases bs) auto
  show ?thesis
  proof (cases "b0 < 0x80")
    case True
    with assms(1) bs have "bs = [b0] @ bs0 \<and> n = length [b0] \<and> codes [b0] r"
      by (auto intro: one)
    then show ?thesis by blast
  next
    case False
    with assms(1,3) bs obtain b1 bs1 m lo hi
      where l: "lead b0 = Some (m, lo, hi)" and bs0: "bs0 = b1 # bs1" and b1: "lo \<le> b1" "b1 \<le> hi"
      by (auto split: option.splits list.splits if_splits)
    have "cont b1" using l b1 by (auto simp: lead_def cont_def split: if_splits)
    then obtain y where y: "b1 = 0x80 + y" "y < 64"
      using byte_digit [of "0x80" b1 64] by (auto simp: cont_def)
    consider "m = 2" | "m = 3" | "m = 4" using l by (auto simp: lead_def split: if_splits)
    then show ?thesis
    proof cases
      case 1
      with l have "0xC2 \<le> b0" "b0 \<le> 0xDF" by (auto simp: lead_def split: if_splits)
      then obtain x where x: "b0 = 0xC0 + x" "x < 32" "2 \<le> x"
        using byte_digit [of "0xC0" b0 32] by auto
      with assms(1) bs bs0 l b1 1 y have "n = 2" "r = x * 64 + y" by (auto simp: mod_lead)
      with two [OF x(3,2) y(2)] show ?thesis
        using x y bs bs0 by (intro exI [of _ "[b0, b1]"] exI [of _ bs1]) simp
    next
      case 2
      with assms(1,3) bs bs0 l b1 False obtain b2 bs2 where bs1: "bs1 = b2 # bs2" and "cont b2"
        by (auto split: list.splits if_splits)
      then obtain z where z: "b2 = 0x80 + z" "z < 64"
        using byte_digit [of "0x80" b2 64] by (auto simp: cont_def)
      from l 2 have "0xE0 \<le> b0" "b0 \<le> 0xEF" by (auto simp: lead_def split: if_splits)
      then obtain x where x: "b0 = 0xE0 + x" "x < 16" using byte_digit [of "0xE0" b0 16] by auto
      from assms(1) bs bs0 bs1 l b1 2 x y z \<open>cont b2\<close>
      have r: "n = 3" "r = x * 4096 + y * 64 + z" by (auto simp: mod_lead)
      from l 2 x y b1 have "x = 0 \<longrightarrow> 32 \<le> y" "x = 13 \<longrightarrow> y < 32"
        by (auto simp: lead_def split: if_splits)
      with three [OF x(2) y(2) z(2)] r show ?thesis
        using x y z bs bs0 bs1 by (intro exI [of _ "[b0, b1, b2]"] exI [of _ bs2]) simp
    next
      case 3
      with assms(1,3) bs bs0 l b1 False obtain b2 b3 bs3
        where bs1: "bs1 = b2 # b3 # bs3" and c: "cont b2" "cont b3"
        by (auto split: list.splits if_splits)
      then obtain z w where z: "b2 = 0x80 + z" "z < 64" and w: "b3 = 0x80 + w" "w < 64"
        using byte_digit [of "0x80" b2 64] byte_digit [of "0x80" b3 64] by (auto simp: cont_def)
      from l 3 have "0xF0 \<le> b0" "b0 \<le> 0xF4" by (auto simp: lead_def split: if_splits)
      then obtain x where x: "b0 = 0xF0 + x" "x < 5" using byte_digit [of "0xF0" b0 5] by auto
      from assms(1) bs bs0 bs1 l b1 3 x y z w c
      have r: "n = 4" "r = x * 262144 + y * 4096 + z * 64 + w" by (auto simp: mod_lead)
      from l 3 x y b1 have "x = 0 \<longrightarrow> 16 \<le> y" "x = 4 \<longrightarrow> y < 16"
        by (auto simp: lead_def split: if_splits)
      with four [OF x(2) y(2) z(2) w(2)] r show ?thesis
        using x y z w bs bs0 bs1 by (intro exI [of _ "[b0, b1, b2, b3]"] exI [of _ bs3]) simp
    qed
  qed
qed

section \<open>Whole strings\<close>

lemma codes_not_bad: "codes u r \<Longrightarrow> \<not> (r = RuneError \<and> length u = 1)"
  by (induction rule: codes.induct) (auto simp: RuneError_def)

lemma codes_nonempty: "codes u r \<Longrightarrow> u \<noteq> []"
  by (induction rule: codes.induct) auto

lemma valid_bytes_step: "codes u r \<Longrightarrow> valid_bytes (u @ bs) = valid_bytes bs"
  using codes_not_bad [of u r] codes_nonempty [of u r]
  by (subst valid_bytes.simps) (auto simp: Decode_codes)

lemma valid_bytes_Encode: "valid_bytes (concat (map EncodeRune rs))"
proof (induction rs)
  case (Cons r rs)
  then show ?case using codes_Encode [of r] valid_bytes_step by auto
qed (simp add: valid_bytes.simps)

lemma Encode_runes: "valid_bytes bs \<Longrightarrow> concat (map EncodeRune (runes_of bs)) = bs"
proof (induction bs rule: runes_of.induct)
  case (1 bs)
  show ?case
  proof (cases "bs = []")
    case False
    obtain r n where d: "DecodeRune bs = (r, n)" by fastforce
    with 1(2) False have nb: "\<not> (r = RuneError \<and> n = 1)" and v: "valid_bytes (drop n bs)"
      by (auto simp: valid_bytes.simps [of bs] split: if_splits)
    from codes_Decode [OF d False nb] obtain u rest
      where u: "bs = u @ rest" "n = length u" "codes u r" by blast
    from 1(1) [OF False d [symmetric] v] u d False show ?thesis
      by (simp add: runes_of.simps [of "u @ rest"] Encode_codes)
  qed (simp add: runes_of.simps)
qed

lemma codes_bytes: "codes u r \<Longrightarrow> \<forall>b \<in> set u. b < 256"
  by (induction rule: codes.induct) auto

lemma Encode_bytes: "\<forall>b \<in> set (concat (map EncodeRune rs)). b < 256"
  using codes_Encode codes_bytes by fastforce

lemma bytes_of_of_bytes: "\<forall>b \<in> set bs. b < 256 \<Longrightarrow> bytes_of (of_bytes bs) = bs"
  by (induction bs) (simp_all add: bytes_of_def of_bytes_def)

lemma of_bytes_bytes_of [simp]: "of_bytes (bytes_of s) = s"
  by (induction s) (simp_all add: bytes_of_def of_bytes_def)

text \<open>Converting to runes and back yields valid UTF-8, and changes nothing that was valid.\<close>

lemma ValidString_string_of [simp]: "ValidString (string_of rs)"
  by (simp only: ValidString_def string_of_def bytes_of_of_bytes [OF Encode_bytes] valid_bytes_Encode)

lemma string_of_runes: "ValidString s \<Longrightarrow> string_of (runes s) = s"
  by (simp add: ValidString_def string_of_def runes_def Encode_runes)

text \<open>ASCII is valid.\<close>

lemma ValidString_ascii: "\<forall>c \<in> set s. of_char c < (128::nat) \<Longrightarrow> ValidString s"
  unfolding ValidString_def bytes_of_def
proof (induction s)
  case (Cons c s)
  then show ?case using valid_bytes_step [OF one, of "of_char c"] by simp
qed (simp add: valid_bytes.simps)

end
