(* ===== verification/Json.thy ===== *)
theory Json
  imports Common Utf8 "HOL-Library.AList"
begin

text \<open>
  What the program uses of \<open>encoding/json\<close>, between Go values and JSON values; the text of a JSON
  document is left abstract, as a payload that is one JSON value or is none.  \<open>Marshal\<close> replaces
  what is not valid UTF-8 in a string.  \<open>Unmarshal\<close> into a struct goes through the members of the
  object, finds the field whose name or tag matches up to ASCII case, and keeps the first error;
  unknown members are ignored, a field whose member is absent or \<open>null\<close> keeps its value.
\<close>

datatype payload = Doc json | Bytes string

section \<open>Marshal\<close>

definition clean :: "string \<Rightarrow> string" where
  "clean s = string_of (runes s)"

definition jstr :: "string \<Rightarrow> json" where
  "jstr s = JString (clean s)"

definition jint :: "int64 \<Rightarrow> json" where
  "jint w = JNum (sint w)"

lemma clean_valid [simp]: "ValidString s \<Longrightarrow> clean s = s"
  by (simp add: clean_def string_of_runes)

lemma ValidString_clean [simp]: "ValidString (clean s)"
  by (simp add: clean_def)

lemma clean_clean [simp]: "clean (clean s) = clean s"
  by simp

definition syslog_json :: "syslogMessage \<Rightarrow> json" where
  "syslog_json m = JObj [(''priority'', jstr (Priority m)), (''time'', jstr (SysTime m))]"

text \<open>The members of an embedded \<open>MessageCommon\<close>.\<close>

definition common_json :: "MessageCommon \<Rightarrow> (string \<times> json) list" where
  "common_json m =
     [(''text'', jstr (Text m)), (''node_id'', jstr (NodeID m)), (''unix_time'', jint (UnixTime m)),
      (''human_time'', jstr (HumanTime m)), (''syslog'', syslog_json (Syslog m))]"

text \<open>
  A nil map is encoded as \<open>null\<close>.  The records do not tell a nil map from an empty one, which would
  be \<open>{}\<close>; whoever decodes either of them gets no members.
\<close>

definition info_json :: "(string \<times> json) list \<Rightarrow> json" where
  "info_json m = (if m = [] then JNull else JObj m)"

definition event_json :: "Event \<Rightarrow> json" where
  "event_json e = JObj
     ([(''type'', jstr (Type e)), (''desc'', jstr (Desc e)), (''severity'', jstr (Severity e)),
       (''info'', info_json (Info e)), (''process'', jstr (Process e))] @ common_json (Common e))"

section \<open>Unmarshal\<close>

definition lower :: "char \<Rightarrow> char" where
  "lower c = (if 65 \<le> (of_char c :: nat) \<and> of_char c \<le> (90 :: nat) then char_of (of_char c + (32::nat)) else c)"

definition matches :: "string \<Rightarrow> string \<Rightarrow> bool" where
  "matches name k \<longleftrightarrow> k = name \<or> map lower k = map lower name"

lemma matches_refl [simp]: "matches k k"
  by (simp add: matches_def)

type_synonym 'r field = "string \<times> (json \<Rightarrow> 'r \<Rightarrow> err \<times> 'r)"

definition first_err :: "err \<Rightarrow> err \<Rightarrow> err" where
  "first_err e e' = (if e = None then e' else e)"

definition member :: "'r field list \<Rightarrow> string \<times> json \<Rightarrow> err \<times> 'r \<Rightarrow> err \<times> 'r" where
  "member fs kv a =
     (case find (\<lambda>f. matches (fst f) (fst kv)) fs of
        None \<Rightarrow> a
      | Some f \<Rightarrow> (case snd f (snd kv) (snd a) of (e, r) \<Rightarrow> (first_err (fst a) e, r)))"

definition TypeError :: string where
  "TypeError = ''json: cannot unmarshal value into Go value''"

definition Unmarshal_struct :: "'r field list \<Rightarrow> json \<Rightarrow> 'r \<Rightarrow> err \<times> 'r" where
  "Unmarshal_struct fs j r =
     (case j of
        JObj kvs \<Rightarrow> fold (member fs) kvs (None, r)
      | JNull \<Rightarrow> (None, r)
      | _ \<Rightarrow> (Some TypeError, r))"

definition Unmarshal :: "'r field list \<Rightarrow> payload \<Rightarrow> 'r \<Rightarrow> err \<times> 'r" where
  "Unmarshal fs p r =
     (case p of
        Doc j \<Rightarrow> Unmarshal_struct fs j r
      | Bytes s \<Rightarrow> (Some ''invalid character'', r))"

definition string_field :: "(string \<Rightarrow> 'r \<Rightarrow> 'r) \<Rightarrow> json \<Rightarrow> 'r \<Rightarrow> err \<times> 'r" where
  "string_field put j r =
     (case j of
        JString s \<Rightarrow> (None, put s r)
      | JNull \<Rightarrow> (None, r)
      | _ \<Rightarrow> (Some TypeError, r))"

definition int64_field :: "(int64 \<Rightarrow> 'r \<Rightarrow> 'r) \<Rightarrow> json \<Rightarrow> 'r \<Rightarrow> err \<times> 'r" where
  "int64_field put j r =
     (case j of
        JNum i \<Rightarrow> if in_i64 i then (None, put (word_of_int i) r) else (Some TypeError, r)
      | JNull \<Rightarrow> (None, r)
      | _ \<Rightarrow> (Some TypeError, r))"

definition struct_field ::
    "'q field list \<Rightarrow> ('r \<Rightarrow> 'q) \<Rightarrow> ('q \<Rightarrow> 'r \<Rightarrow> 'r) \<Rightarrow> json \<Rightarrow> 'r \<Rightarrow> err \<times> 'r" where
  "struct_field fs take_it put j r = (case Unmarshal_struct fs j (take_it r) of (e, q) \<Rightarrow> (e, put q r))"

text \<open>
  A \<open>map[string]interface{}\<close>: the members, their numbers as floats, are added to the entries already
  there.
\<close>

definition map_field ::
    "('r \<Rightarrow> (string \<times> json) list) \<Rightarrow> ((string \<times> json) list \<Rightarrow> 'r \<Rightarrow> 'r) \<Rightarrow> json \<Rightarrow> 'r \<Rightarrow> err \<times> 'r" where
  "map_field take_it put j r =
     (case j of
        JObj kvs \<Rightarrow> (None, put (fold (\<lambda>(k, v). AList.update k v) (iface_members kvs) (take_it r)) r)
      | JNull \<Rightarrow> (None, put [] r)
      | _ \<Rightarrow> (Some TypeError, r))"

section \<open>The structs of packages common and sieve\<close>

definition syslog_fields :: "syslogMessage field list" where
  "syslog_fields =
     [(''priority'', string_field (\<lambda>s r. r\<lparr>Priority := s\<rparr>)),
      (''time'', string_field (\<lambda>s r. r\<lparr>SysTime := s\<rparr>))]"

definition common_fields :: "MessageCommon field list" where
  "common_fields =
     [(''text'', string_field (\<lambda>s r. r\<lparr>Text := s\<rparr>)),
      (''node_id'', string_field (\<lambda>s r. r\<lparr>NodeID := s\<rparr>)),
      (''unix_time'', int64_field (\<lambda>w r. r\<lparr>UnixTime := w\<rparr>)),
      (''human_time'', string_field (\<lambda>s r. r\<lparr>HumanTime := s\<rparr>)),
      (''syslog'', struct_field syslog_fields Syslog (\<lambda>q r. r\<lparr>Syslog := q\<rparr>))]"

text \<open>The fields of an embedded struct are fields of the struct around it.\<close>

definition embed :: "('r \<Rightarrow> 'q) \<Rightarrow> ('q \<Rightarrow> 'r \<Rightarrow> 'r) \<Rightarrow> 'q field list \<Rightarrow> 'r field list" where
  "embed take_it put fs =
     map (\<lambda>(n, f). (n, \<lambda>j r. case f j (take_it r) of (e, q) \<Rightarrow> (e, put q r))) fs"

definition event_fields :: "Event field list" where
  "event_fields =
     [(''type'', string_field (\<lambda>s r. r\<lparr>Type := s\<rparr>)),
      (''desc'', string_field (\<lambda>s r. r\<lparr>Desc := s\<rparr>)),
      (''severity'', string_field (\<lambda>s r. r\<lparr>Severity := s\<rparr>)),
      (''info'', map_field Info (\<lambda>m r. r\<lparr>Info := m\<rparr>)),
      (''process'', string_field (\<lambda>s r. r\<lparr>Process := s\<rparr>))]
     @ embed Common (\<lambda>q r. r\<lparr>Common := q\<rparr>) common_fields"

definition zero_Event :: Event where
  "zero_Event = \<lparr>Type = [], Desc = [], Severity = [], Info = [], Process = [], Common = zero_MessageCommon\<rparr>"

lemma field_simps [simp]:
  "string_field put (jstr s) r = (None, put (clean s) r)"
  "int64_field iput (jint w) q = (None, iput w q)"
  using i64_in [of w] by (simp_all add: string_field_def jstr_def int64_field_def jint_def)

text \<open>A string, and a number below a million, come out of an \<open>interface{}\<close> as they went in.\<close>

lemma iface_parts: "iface (jstr s) = jstr s" "\<bar>sint w\<bar> < 1000000 \<Longrightarrow> iface (jint w) = jint w"
  by (simp_all add: jstr_def jint_def float_json_def)

lemma fold_update_distinct:
  "distinct (map fst kvs) \<Longrightarrow> fst ` set kvs \<inter> fst ` set al = {} \<Longrightarrow>
   fold (\<lambda>(k, v). AList.update k v) kvs al = al @ kvs"
proof (induction kvs arbitrary: al)
  case (Cons kv kvs)
  then have "AList.update (fst kv) (snd kv) al = al @ [kv]"
    by (induction al) auto
  with Cons show ?case by (simp add: case_prod_unfold image_iff)
qed simp

text \<open>What an event looks like after a trip through JSON.\<close>

definition clean_syslog :: "syslogMessage \<Rightarrow> syslogMessage" where
  "clean_syslog m = \<lparr>Priority = clean (Priority m), SysTime = clean (SysTime m)\<rparr>"

definition clean_common :: "MessageCommon \<Rightarrow> MessageCommon" where
  "clean_common m =
     \<lparr>Text = clean (Text m), NodeID = clean (NodeID m), UnixTime = UnixTime m,
      HumanTime = clean (HumanTime m), Syslog = clean_syslog (Syslog m)\<rparr>"

definition clean_event :: "Event \<Rightarrow> Event" where
  "clean_event e =
     \<lparr>Type = clean (Type e), Desc = clean (Desc e), Severity = clean (Severity e),
      Info = iface_members (Info e), Process = clean (Process e), Common = clean_common (Common e)\<rparr>"

lemma event_roundtrip:
  assumes "distinct (map fst (Info e))"
  shows "Unmarshal event_fields (Doc (event_json e)) zero_Event = (None, clean_event e)"
  using assms
  by (simp add: Unmarshal_def Unmarshal_struct_def event_json_def common_json_def event_fields_def
      common_fields_def embed_def member_def matches_def lower_def first_err_def struct_field_def
      syslog_fields_def syslog_json_def map_field_def info_json_def fold_update_distinct zero_Event_def
      zero_MessageCommon_def clean_event_def clean_common_def clean_syslog_def)

end
