(* ===== verification/App_Log.thy ===== *)
theory App_Log
  imports Json
begin

text \<open>
  The records that leave a node: \<open>apptail/message/message.go\<close> (an entry of an application's log),
  \<open>sieve/event.go\<close> (\<open>MustPublish\<close>), \<open>apptail/pubchannel/pubchannel.go\<close> (publishing from any
  goroutine) and \<open>apptail/event/monitor.go\<close> with \<open>timeline.go\<close> (cloud events copied into the
  application's log).  The logyard broker is the list of what was published: a key and a payload.
  \<open>json.Marshal\<close> is an argument where the code handles its error.
\<close>

type_synonym broker = "(string \<times> payload) list"

definition pub_MustPublish :: "string \<Rightarrow> payload \<Rightarrow> broker \<Rightarrow> broker" where
  "pub_MustPublish k data pub = pub @ [(k, data)]"

section \<open>message.Message\<close>

record Message =
  LogFilename :: string
  Source :: string
  InstanceIndex :: int64
  AppGUID :: string
  AppName :: string
  AppSpace :: string
  MCommon :: MessageCommon

definition message_json :: "Message \<Rightarrow> json" where
  "message_json m = JObj
     ([(''filename'', jstr (LogFilename m)), (''source'', jstr (Source m)),
       (''instance_index'', jint (InstanceIndex m)), (''app_guid'', jstr (AppGUID m)),
       (''app_name'', jstr (AppName m)), (''app_space'', jstr (AppSpace m))]
      @ common_json (MCommon m))"

definition message_Marshal :: "Message \<Rightarrow> err \<times> payload" where
  "message_Marshal m = (None, Doc (message_json m))"

definition set_Text :: "string \<Rightarrow> Message \<Rightarrow> Message" where
  "set_Text s m = m\<lparr>MCommon := (MCommon m)\<lparr>Text := s\<rparr>\<rparr>"

text \<open>
  The \<open>fmt.Errorf\<close> of the code has no verb for its argument, which \<open>fmt\<close> appends as an extra one.
\<close>

definition Publish :: "(Message \<Rightarrow> err \<times> payload) \<Rightarrow> Message \<Rightarrow> bool \<Rightarrow> broker \<Rightarrow> err \<times> broker" where
  "Publish marshal msg allowInvalidJson pub =
     (let msg = (if \<not> ValidString (Text (MCommon msg))
                 then set_Text (string_of (runes (Text (MCommon msg)))) msg else msg);
          (err, data) = marshal msg;
          send = pub_MustPublish (''apptail.'' @ AppGUID msg) data pub
      in case err of
           Some e \<Rightarrow> if allowInvalidJson then (None, send)
                      else (Some (''Failed to encode app log record to JSON: %!(EXTRA '' @ e @ '')''), pub)
         | None \<Rightarrow> (None, send))"

text \<open>With the real encoder, which cleans every string, a message always goes out.\<close>

lemma message_json_clean: "message_json (set_Text (clean (Text (MCommon m))) m) = message_json m"
  by (simp add: message_json_def common_json_def set_Text_def jstr_def)

lemma Publish_ok:
  "Publish message_Marshal m allow pub =
     (None, pub @ [(''apptail.'' @ AppGUID m, Doc (message_json m))])"
  using message_json_clean [of m]
  by (simp add: Publish_def message_Marshal_def pub_MustPublish_def clean_def Let_def)
    (simp add: set_Text_def)

section \<open>sieve.Event\<close>

definition event_Marshal :: "Event \<Rightarrow> err \<times> payload" where
  "event_Marshal e = (None, Doc (event_json e))"

definition event_MustPublish :: "(Event \<Rightarrow> err \<times> payload) \<Rightarrow> Event \<Rightarrow> broker \<Rightarrow> broker go" where
  "event_MustPublish marshal e pub =
     (case marshal e of
        (Some err, _) \<Rightarrow> Inl (Exit err)
      | (None, data) \<Rightarrow> Inr (pub_MustPublish (event_key e) data pub))"

section \<open>PubChannel\<close>

text \<open>
  \<open>loop\<close> waits for the delay or for \<open>stopCh\<close> (\<open>Delaying\<close>); after the delay it takes one value after
  the other from the unbuffered channel (\<open>Serving\<close>), when stopped before it is gone (\<open>Gone\<close>).  A
  send completes only when the loop receives it.
\<close>

datatype loop_pc = Delaying | Serving | Gone

record PubChannel =
  ch_key :: string
  loop_pc :: loop_pc
  stopped :: bool
  out :: broker

definition New :: "string \<Rightarrow> broker \<Rightarrow> PubChannel" where
  "New k pub = \<lparr>ch_key = k, loop_pc = Delaying, stopped = False, out = pub\<rparr>"

datatype pub_action = TimeAfter | StopSeen | CloseStop | SendOn Event

inductive pubstep :: "PubChannel \<Rightarrow> pub_action \<Rightarrow> PubChannel \<Rightarrow> bool" where
  delay_over: "loop_pc c = Delaying \<Longrightarrow> pubstep c TimeAfter (c\<lparr>loop_pc := Serving\<rparr>)"
| stop_seen: "loop_pc c = Delaying \<Longrightarrow> stopped c \<Longrightarrow> pubstep c StopSeen (c\<lparr>loop_pc := Gone\<rparr>)"
| close_stop: "\<not> stopped c \<Longrightarrow> pubstep c CloseStop (c\<lparr>stopped := True\<rparr>)"
| sent: "loop_pc c = Serving \<Longrightarrow> event_Marshal data = (None, b) \<Longrightarrow>
    pubstep c (SendOn data) (c\<lparr>out := pub_MustPublish (ch_key c) b (out c)\<rparr>)"

inductive pubsteps :: "PubChannel \<Rightarrow> pub_action list \<Rightarrow> PubChannel \<Rightarrow> bool" where
  pub_nil: "pubsteps c [] c"
| pub_cons: "pubstep c a c' \<Longrightarrow> pubsteps c' acts c'' \<Longrightarrow> pubsteps c (a # acts) c''"

inductive_cases pubstepE: "pubstep c a c'"
inductive_cases pubsteps_NilE: "pubsteps c [] c'"
inductive_cases pubsteps_ConsE: "pubsteps c (a # acts) c'"

fun sends :: "pub_action list \<Rightarrow> Event list" where
  "sends [] = []"
| "sends (SendOn e # acts) = e # sends acts"
| "sends (_ # acts) = sends acts"

lemma pubsteps_out:
  "pubsteps c acts c' \<Longrightarrow> ch_key c' = ch_key c \<and>
     out c' = out c @ map (\<lambda>e. (ch_key c, Doc (event_json e))) (sends acts) \<and>
     (loop_pc c = Gone \<longrightarrow> loop_pc c' = Gone \<and> sends acts = [])"
proof (induction rule: pubsteps.induct)
  case (pub_cons c a c' acts c'')
  from pub_cons(1) show ?case
    by cases (use pub_cons(3) in \<open>auto simp: pub_MustPublish_def event_Marshal_def\<close>)
qed simp

section \<open>Timeline events\<close>

record App =
  GUID :: string
  Space :: string
  Name :: string

record TimelineEvent =
  TApp :: App
  TInstanceIndex :: int64

definition app_json :: "App \<Rightarrow> json" where
  "app_json a = JObj [(''guid'', jstr (GUID a)), (''space_guid'', jstr (Space a)), (''name'', jstr (Name a))]"

definition app_fields :: "App field list" where
  "app_fields =
     [(''guid'', string_field (\<lambda>s r. r\<lparr>GUID := s\<rparr>)),
      (''space_guid'', string_field (\<lambda>s r. r\<lparr>Space := s\<rparr>)),
      (''name'', string_field (\<lambda>s r. r\<lparr>Name := s\<rparr>))]"

definition timeline_fields :: "TimelineEvent field list" where
  "timeline_fields =
     [(''app'', struct_field app_fields TApp (\<lambda>q r. r\<lparr>TApp := q\<rparr>)),
      (''instance_index'', int64_field (\<lambda>w r. r\<lparr>TInstanceIndex := w\<rparr>))]"

definition zero_TimelineEvent :: TimelineEvent where
  "zero_TimelineEvent = \<lparr>TApp = \<lparr>GUID = [], Space = [], Name = []\<rparr>, TInstanceIndex = 0\<rparr>"

text \<open>The node: its brand name, its id, and \<open>time.Unix(_, 0)\<close>.\<close>

record node =
  BrandName :: string
  LocalNodeId :: string
  at_unix :: "int64 \<Rightarrow> GoTime"

definition PublishAppLog :: "node \<Rightarrow> TimelineEvent \<Rightarrow> string \<Rightarrow> Event \<Rightarrow> broker \<Rightarrow> broker go" where
  "PublishAppLog N t source event pub =
     (case Publish message_Marshal
         \<lparr>LogFilename = [], Source = source, InstanceIndex = TInstanceIndex t, AppGUID = GUID (TApp t),
          AppName = Name (TApp t), AppSpace = Space (TApp t),
          MCommon = NewMessageCommon (Desc event) (at_unix N (UnixTime (Common event))) (LocalNodeId N)\<rparr>
         True pub of
        (Some e, _) \<Rightarrow> Inl (Exit e)
      | (None, pub) \<Rightarrow> Inr pub)"

definition monitor_message :: "node \<Rightarrow> payload \<Rightarrow> broker \<Rightarrow> broker go" where
  "monitor_message N msg pub =
     (case Unmarshal event_fields msg zero_Event of
        (Some e, _) \<Rightarrow> Inl (Exit e)
      | (None, event) \<Rightarrow>
          (case Unmarshal timeline_fields (Doc (info_json (Info event))) zero_TimelineEvent of
             (Some e, _) \<Rightarrow> Inl (Exit (''Invalid timeline event: '' @ e))
           | (None, t) \<Rightarrow>
               (let source =
                  (if - 1 <s TInstanceIndex t
                   then BrandName N @ ''['' @ Process event @ ''.'' @ i64_dec (TInstanceIndex t) @ '']''
                   else BrandName N @ ''['' @ Process event @ '']'')
                in PublishAppLog N t source event pub)))"

definition MonitorCloudEvents :: "node \<Rightarrow> payload list \<Rightarrow> broker \<Rightarrow> broker go" where
  "MonitorCloudEvents N msgs pub = go_fold (monitor_message N) msgs pub"

section \<open>Properties\<close>

text \<open>
  C34. What \<open>Publish\<close> hands to the encoder is always valid UTF-8: an encoder that accepts just the
  records with a valid text is enough, and a text that is already valid goes out unchanged, under
  the key of the application.
\<close>

theorem Publish_sends_valid_text:
  assumes "\<And>m. ValidString (Text (MCommon m)) \<Longrightarrow> marshal m = (None, enc m)"
  shows "Publish marshal msg allow pub =
    (None, pub @ [(''apptail.'' @ AppGUID msg, enc (set_Text (clean (Text (MCommon msg))) msg))]) \<and>
    (ValidString (Text (MCommon msg)) \<longrightarrow> set_Text (clean (Text (MCommon msg))) msg = msg)"
proof -
  have "marshal (set_Text (clean (Text (MCommon msg))) msg) =
      (None, enc (set_Text (clean (Text (MCommon msg))) msg))"
    by (rule assms) (simp add: set_Text_def)
  moreover have "set_Text (Text (MCommon msg)) msg = msg" by (simp add: set_Text_def)
  ultimately show ?thesis
    by (auto simp: Publish_def pub_MustPublish_def Let_def clean_def string_of_runes set_Text_def)
qed

definition demo_message :: Message where
  "demo_message = \<lparr>LogFilename = ''stdout'', Source = ''app'', InstanceIndex = 0, AppGUID = ''g1'',
     AppName = ''env'', AppSpace = ''s1'', MCommon = zero_MessageCommon\<lparr>Text := [char_of (255::nat)]\<rparr>\<rparr>"

theorem Publish_sends_valid_text_witness:
  "Publish (\<lambda>m. if ValidString (Text (MCommon m)) then (None, Bytes (Text (MCommon m)))
                else (Some ''invalid UTF-8'', Bytes [])) demo_message False [] =
     (None, [(''apptail.g1'', Bytes (clean [char_of (255::nat)]))])"
proof -
  let ?marshal = "\<lambda>m. if ValidString (Text (MCommon m)) then (None, Bytes (Text (MCommon m)))
                else (Some ''invalid UTF-8'', Bytes [])"
  show ?thesis
    using Publish_sends_valid_text [of ?marshal "\<lambda>m. Bytes (Text (MCommon m))" demo_message False "[]"]
    by (simp add: demo_message_def set_Text_def)
qed

text \<open>
  When the encoder fails and invalid JSON is allowed, the message is not skipped, as the log
  line says: the empty data the encoder returned is published and nil is returned; only without
  the flag is the error returned and nothing sent.
\<close>

theorem Publish_sends_failed_encoding:
  assumes "\<And>m. marshal m = (Some e, Bytes [])"
  shows "Publish marshal msg True pub = (None, pub @ [(''apptail.'' @ AppGUID msg, Bytes [])]) \<and>
    (\<exists>m. Publish marshal msg False pub = (Some m, pub))"
  by (auto simp: Publish_def pub_MustPublish_def assms Let_def set_Text_def)

theorem Publish_sends_failed_encoding_witness:
  "Publish (\<lambda>_. (Some ''unsupported'', Bytes [])) demo_message True [] =
     (None, [(''apptail.g1'', Bytes [])])"
  using Publish_sends_failed_encoding [of "\<lambda>_. (Some ''unsupported'', Bytes [])" "''unsupported''" demo_message "[]"]
  by (simp add: demo_message_def)

text \<open>
  A publishing channel delivers what was sent, in order and under its key, each value once; and
  when the channel is stopped during the initial delay no later send ever completes.
\<close>

theorem pubchannel_delivers_in_order:
  assumes "pubsteps (New k pub) acts c" and "pubsteps c acts' c'"
  shows "out c' = pub @ map (\<lambda>e. (k, Doc (event_json e))) (sends acts @ sends acts') \<and>
    (loop_pc c = Gone \<longrightarrow> sends acts' = [])"
  using pubsteps_out [OF assms(1)] pubsteps_out [OF assms(2)] by (auto simp: New_def)

theorem pubchannel_delivers_in_order_witness:
  "\<exists>c. pubsteps (New ''event.timeline'' []) [CloseStop, StopSeen] c \<and> loop_pc c = Gone \<and>
     (\<forall>acts' c'. pubsteps c acts' c' \<longrightarrow> sends acts' = [])"
proof -
  let ?initial = "New ''event.timeline'' []"
  let ?closing = "?initial\<lparr>stopped := True\<rparr>"
  let ?gone = "?closing\<lparr>loop_pc := Gone\<rparr>"
  have s1: "pubstep ?initial CloseStop ?closing" by (rule close_stop) (simp add: New_def)
  have s2: "pubstep ?closing StopSeen ?gone" by (rule stop_seen) (simp_all add: New_def)
  have r: "pubsteps ?initial [CloseStop, StopSeen] ?gone"
    by (rule pub_cons [OF s1 pub_cons [OF s2 pub_nil]])
  have "loop_pc ?gone = Gone" by simp
  with r show ?thesis using pubchannel_delivers_in_order [OF r] by blast
qed

end
