(* ===== verification/Docker_Events.thy ===== *)
theory Docker_Events
  imports Common "HOL-Library.AList"
begin

text \<open>
  \<open>docker_events/docker_events.go\<close> and \<open>docker_events/cmd/docker_events/main.go\<close>: the requests to the
  docker daemon.  What the successive \<open>Get\<close>s return is a function of the attempt: a response (a nil
  pointer is \<open>None\<close>) and an error.  A body is what reading it to the end gives.  \<open>json.Unmarshal\<close> into
  \<open>[]Docker\<close> is the parameter \<open>unmarshal\<close>, which yields the ids.
\<close>

definition ID_LENGTH :: nat where
  "ID_LENGTH = 12"

record docker_event =
  Id :: string
  Status :: string
  From :: string
  Time :: int64

section \<open>Requests\<close>

type_synonym body = "err \<times> string"

type_synonym get = "int \<Rightarrow> body option \<times> err"

function getDockerEvents_from :: "get \<Rightarrow> int \<Rightarrow> int \<Rightarrow> body option go" where
  "getDockerEvents_from get retries attempt =
     (if attempt < retries then
        (case get attempt of
           (res, Some err) \<Rightarrow>
             if attempt + 1 = retries
             then Inl (Exit (''Failed to read from docker daemon; giving up retrying: '' @ err))
             else getDockerEvents_from get retries (attempt + 1)
         | (res, None) \<Rightarrow> Inr res)
      else Inl (Panic ''unreachable''))"
  by pat_completeness auto

termination
  by (relation "measure (\<lambda>(_, retries, attempt). nat (retries - attempt))") auto

declare getDockerEvents_from.simps [simp del]

definition getDockerEvents :: "get \<Rightarrow> int \<Rightarrow> body option go" where
  "getDockerEvents get retries = getDockerEvents_from get retries 0"

text \<open>\<open>for _, element := range jsonData { allDockerIds[element.Id[:ID_LENGTH]] = true }\<close>\<close>

type_synonym id_set = "(string \<times> bool) list"

definition add_id :: "string \<Rightarrow> id_set \<Rightarrow> id_set go" where
  "add_id i ids = go_bind (str_upto ID_LENGTH i) (\<lambda>k. Inr (AList.update k True ids))"

text \<open>
  The argument \<open>res.Body.Close\<close> of the \<open>defer\<close> is evaluated at once: with a nil response it is a nil
  dereference.  There is no exit from the loop after a successful attempt.
\<close>

function live_from ::
    "get \<Rightarrow> (string \<Rightarrow> err \<times> string list) \<Rightarrow> int \<Rightarrow> int \<Rightarrow> id_set \<Rightarrow> id_set go" where
  "live_from get unmarshal retries attempt ids =
     (if attempt < retries then
        (case get attempt of
           (None, _) \<Rightarrow> Inl (Panic ''nil pointer dereference'')
         | (Some res, Some err) \<Rightarrow>
             if attempt + 1 = retries
             then Inl (Exit (''Failed to read from docker daemon; giving up retrying: '' @ err))
             else live_from get unmarshal retries (attempt + 1) ids
         | (Some (Some err, _), None) \<Rightarrow> Inl (Exit err)
         | (Some (None, bytes), None) \<Rightarrow>
             (case unmarshal bytes of
                (Some err, _) \<Rightarrow> Inl (Exit err)
              | (None, jsonData) \<Rightarrow>
                  (case go_fold add_id jsonData ids of
                     Inl e \<Rightarrow> Inl e
                   | Inr ids' \<Rightarrow> live_from get unmarshal retries (attempt + 1) ids')))
      else Inr ids)"
  by pat_completeness auto

termination
  by (relation "measure (\<lambda>(_, _, retries, attempt, _). nat (retries - attempt))") auto

declare live_from.simps [simp del]

definition GetLiveDockerContainers ::
    "get \<Rightarrow> (string \<Rightarrow> err \<times> string list) \<Rightarrow> int \<Rightarrow> id_set go" where
  "GetLiveDockerContainers get unmarshal retries = live_from get unmarshal retries 0 []"

section \<open>The event stream\<close>

text \<open>
  The goroutine of \<open>Stream\<close> over what the decoder yields: the events it sends, and whether the
  channel is then closed.  \<open>Blocked\<close>: it waits for the next document.
\<close>

datatype decoded = Document docker_event | EOF | DecodeError string

fun stream_events :: "decoded list \<Rightarrow> docker_event list \<times> unit go" where
  "stream_events [] = ([], Inl Blocked)"
| "stream_events (Document event # ds) =
     (case stream_events ds of (sent, end) \<Rightarrow> (event # sent, end))"
| "stream_events (EOF # ds) = ([], Inr ())"
| "stream_events (DecodeError e # ds) = ([], Inl (Exit e))"

definition Stream :: "get \<Rightarrow> decoded list \<Rightarrow> (docker_event list \<times> unit go) go" where
  "Stream get docs = go_bind (getDockerEvents get 3) (\<lambda>res. Inr (stream_events docs))"

text \<open>\<open>SendToLogyard\<close> builds the event; \<open>at\<close> is \<open>time.Unix(_, 0)\<close>.\<close>

definition SendToLogyard :: "(int64 \<Rightarrow> GoTime) \<Rightarrow> string \<Rightarrow> docker_event \<Rightarrow> Event" where
  "SendToLogyard at node event =
     (let tx = Status event @ '' action for container '' @ Id event @ '' (image: '' @ From event @ '')''
      in \<lparr>Type = Status event, Desc = tx, Severity = ''INFO'', Info = [], Process = ''docker_events'',
          Common = NewMessageCommon tx (at (Time event)) node\<rparr>)"

section \<open>getDockerEvents\<close>

lemma getDockerEvents_from_eq:
  "attempt < retries \<Longrightarrow> getDockerEvents_from get retries attempt =
     (case find (\<lambda>i. snd (get i) = None) [attempt..retries - 1] of
        Some i \<Rightarrow> Inr (fst (get i))
      | None \<Rightarrow> Inl (Exit (''Failed to read from docker daemon; giving up retrying: '' @
                           the (snd (get (retries - 1))))))"
proof (induction get retries attempt rule: getDockerEvents_from.induct)
  case (1 get retries attempt)
  have l: "[attempt..retries - 1] = attempt # [attempt + 1..retries - 1]"
    using "1.prems" by (simp add: upto.simps)
  show ?case
  proof (cases "snd (get attempt)")
    case None
    with "1.prems" l show ?thesis
      by (simp add: getDockerEvents_from.simps [of get] prod.case_eq_if)
  next
    case (Some e)
    then obtain res where g: "get attempt = (res, Some e)" by (metis prod.collapse)
    show ?thesis
    proof (cases "attempt + 1 = retries")
      case True
      with g show ?thesis by (auto simp: getDockerEvents_from.simps [of get])
    next
      case False
      with 1 g l show ?thesis by (simp add: getDockerEvents_from.simps [of get retries attempt])
    qed
  qed
qed

section \<open>GetLiveDockerContainers\<close>

text \<open>An attempt that yields the ids \<open>js\<close>, all of them long enough to be shortened.\<close>

definition lists_ids :: "get \<Rightarrow> (string \<Rightarrow> err \<times> string list) \<Rightarrow> int \<Rightarrow> string list \<Rightarrow> bool" where
  "lists_ids get unmarshal i js \<longleftrightarrow>
     (\<exists>bytes. get i = (Some (None, bytes), None) \<and> unmarshal bytes = (None, js)) \<and>
     (\<forall>j \<in> set js. ID_LENGTH \<le> length j)"

lemma add_ids_fold:
  "\<forall>j \<in> set js. ID_LENGTH \<le> length j \<Longrightarrow> distinct (map fst ids) \<Longrightarrow>
   \<exists>ids'. go_fold add_id js ids = Inr ids' \<and> distinct (map fst ids') \<and>
     fst ` set ids' = fst ` set ids \<union> take ID_LENGTH ` set js"
proof (induction js arbitrary: ids)
  case (Cons j js)
  have "distinct (map fst (AList.update (take ID_LENGTH j) True ids))"
    using Cons.prems(2) by (simp add: distinct_update)
  from Cons.IH [OF _ this] Cons.prems(1) show ?case
    by (auto simp: add_id_def str_upto_def dom_update)
qed simp

lemma live_from_eq:
  "\<lbrakk>\<And>i. attempt \<le> i \<Longrightarrow> i < retries \<Longrightarrow> lists_ids get unmarshal i (js i);
    distinct (map fst ids); attempt \<le> retries\<rbrakk> \<Longrightarrow>
   \<exists>ids'. live_from get unmarshal retries attempt ids = Inr ids' \<and> distinct (map fst ids') \<and>
     fst ` set ids' = fst ` set ids \<union> (\<Union>i\<in>{attempt..<retries}. take ID_LENGTH ` set (js i))"
proof (induction "nat (retries - attempt)" arbitrary: attempt ids)
  case 0
  then show ?case by (simp add: live_from.simps)
next
  case (Suc n)
  then have lt: "attempt < retries" and n: "n = nat (retries - (attempt + 1))" by auto
  with Suc.prems(1) [of attempt] obtain bytes
    where g: "get attempt = (Some (None, bytes), None)" "unmarshal bytes = (None, js attempt)"
      and l: "\<forall>j \<in> set (js attempt). ID_LENGTH \<le> length j"
    by (auto simp: lists_ids_def)
  from add_ids_fold [OF l Suc.prems(2)] obtain ids1
    where f: "go_fold add_id (js attempt) ids = Inr ids1" "distinct (map fst ids1)"
      "fst ` set ids1 = fst ` set ids \<union> take ID_LENGTH ` set (js attempt)"
    by blast
  have "\<exists>ids'. live_from get unmarshal retries (attempt + 1) ids1 = Inr ids' \<and>
      distinct (map fst ids') \<and>
      fst ` set ids' = fst ` set ids1 \<union> (\<Union>i\<in>{attempt + 1..<retries}. take ID_LENGTH ` set (js i))"
    using Suc.prems lt by (intro Suc.hyps(1) [OF n] f(2)) auto
  moreover have "{attempt..<retries} = insert attempt {attempt + 1..<retries}" using lt by auto
  ultimately show ?case
    using lt by (simp add: live_from.simps [of get unmarshal retries attempt] g f Un_assoc)
qed

text \<open>A request that fails without a response stops the loop at once, whatever is left to retry.\<close>

lemma live_from_nil:
  "\<lbrakk>\<And>i. attempt \<le> i \<Longrightarrow> i < a \<Longrightarrow> lists_ids get unmarshal i (js i);
    distinct (map fst ids); attempt \<le> a; a < retries; fst (get a) = None\<rbrakk> \<Longrightarrow>
   live_from get unmarshal retries attempt ids = Inl (Panic ''nil pointer dereference'')"
proof (induction "nat (a - attempt)" arbitrary: attempt ids)
  case 0
  then show ?case by (simp add: live_from.simps prod.case_eq_if)
next
  case (Suc n)
  then have lt: "attempt < a" and n: "n = nat (a - (attempt + 1))" by auto
  with Suc.prems(1) [of attempt] obtain bytes
    where g: "get attempt = (Some (None, bytes), None)" "unmarshal bytes = (None, js attempt)"
      and l: "\<forall>j \<in> set (js attempt). ID_LENGTH \<le> length j"
    by (auto simp: lists_ids_def)
  from add_ids_fold [OF l Suc.prems(2)] obtain ids1
    where f: "go_fold add_id (js attempt) ids = Inr ids1" "distinct (map fst ids1)" by blast
  have "live_from get unmarshal retries (attempt + 1) ids1 = Inl (Panic ''nil pointer dereference'')"
    using Suc.prems lt by (intro Suc.hyps(1) [OF n] f(2)) auto
  with lt Suc.prems(4) show ?case
    by (simp add: live_from.simps [of get unmarshal retries attempt] g f)
qed

section \<open>Properties\<close>

text \<open>
  C30. Connecting to the event stream with at least one retry ends in the response of the first
  request that succeeds, and if none does the process exits with the error of the last one; the
  final \<open>panic("unreachable")\<close> is indeed unreachable.
\<close>

theorem getDockerEvents_first_success:
  assumes "0 < retries"
  shows "getDockerEvents get retries =
     (case find (\<lambda>i. snd (get i) = None) [0..retries - 1] of
        Some i \<Rightarrow> Inr (fst (get i))
      | None \<Rightarrow> Inl (Exit (''Failed to read from docker daemon; giving up retrying: '' @
                           the (snd (get (retries - 1))))))"
  using getDockerEvents_from_eq [OF assms] by (simp add: getDockerEvents_def)

theorem getDockerEvents_first_success_witness:
  "getDockerEvents (\<lambda>i. if i < 2 then (None, Some ''refused'') else (Some (None, ''{}''), None)) 3 =
     Inr (Some (None, ''{}''))"
  by (subst getDockerEvents_first_success) (simp_all add: upto.simps)

text \<open>
  When every request is answered, the live containers are the shortened ids of all \<open>retries\<close>
  answers together, not of the first: the loop goes on after a success, so a container that
  stopped between two requests still counts as live.
\<close>

theorem live_containers_are_a_union:
  assumes "\<And>i. 0 \<le> i \<Longrightarrow> i < retries \<Longrightarrow> lists_ids get unmarshal i (js i)" and "0 \<le> retries"
  shows "\<exists>ids. GetLiveDockerContainers get unmarshal retries = Inr ids \<and> distinct (map fst ids) \<and>
    fst ` set ids = (\<Union>i\<in>{0..<retries}. take ID_LENGTH ` set (js i))"
  using live_from_eq [of 0 retries get unmarshal js "[]"] assms
  by (simp add: GetLiveDockerContainers_def)

theorem live_containers_are_a_union_witness:
  "\<exists>ids. GetLiveDockerContainers (\<lambda>i. (Some (None, if i = 0 then ''A'' else ''B''), None))
      (\<lambda>b. (None, [b @ ''0123456789abcdef''])) 2 = Inr ids \<and>
     fst ` set ids = {''A0123456789a'', ''B0123456789a''}"
proof -
  let ?get = "\<lambda>i::int. (Some (None :: err, if i = 0 then ''A'' else ''B''), None :: err)"
  let ?un = "\<lambda>b. (None :: err, [b @ ''0123456789abcdef''])"
  let ?js = "\<lambda>i::int. [(if i = 0 then ''A'' else ''B'') @ ''0123456789abcdef'']"
  have "lists_ids ?get ?un i (?js i)" for i
    by (simp add: lists_ids_def ID_LENGTH_def)
  moreover have "{0..<2::int} = {0, 1}" by auto
  ultimately show ?thesis
    using live_containers_are_a_union [of 2 ?get ?un ?js] by (auto simp: ID_LENGTH_def)
qed

text \<open>
  The retries of \<open>GetLiveDockerContainers\<close> never happen: the first request that fails without
  a response panics, because the \<open>defer\<close> before the error test already uses the response.
\<close>

theorem live_containers_error_panics:
  assumes "0 \<le> a" and "a < retries" and "get a = (None, Some err)"
    and "\<And>i. 0 \<le> i \<Longrightarrow> i < a \<Longrightarrow> lists_ids get unmarshal i (js i)"
  shows "GetLiveDockerContainers get unmarshal retries = Inl (Panic ''nil pointer dereference'')"
  using live_from_nil [of 0 a get unmarshal js "[]" retries] assms
  by (simp add: GetLiveDockerContainers_def)

theorem live_containers_error_panics_witness:
  "GetLiveDockerContainers (\<lambda>_. (None, Some ''connection refused'')) (\<lambda>_. (None, [])) 3 =
     Inl (Panic ''nil pointer dereference'')"
  by (rule live_containers_error_panics [of 0]) simp_all

end
