(* ===== verification/Docker_Listener.thy ===== *)
theory Docker_Listener
  imports Tracker Docker_Events
begin

text \<open>
  \<open>apptail/docker/listener.go\<close>: goroutines that wait for a container to stop, and the loop over
  docker's events that releases them.  Channels are numbered in the order of their creation;
  \<open>closed\<close> holds those that were closed.  The bodies of the two critical sections are the steps; a
  goroutine blocked on \<open><-ch\<close> goes on once its channel is closed.
\<close>

definition RETRY :: int where
  "RETRY = 3"

record dockerListener =
  waiters :: "string \<rightharpoonup> nat"
  closed :: "nat set"
  next_ch :: nat

definition init_listener :: dockerListener where
  "init_listener = \<lparr>waiters = Map.empty, closed = {}, next_ch = 0\<rparr>"

section \<open>The operations\<close>

text \<open>\<open>BlockUntilContainerStops\<close> up to \<open><-ch\<close>; the result is \<open>ch\<close>.\<close>

definition BlockUntilContainerStops :: "string \<Rightarrow> dockerListener \<Rightarrow> (nat \<times> dockerListener) go" where
  "BlockUntilContainerStops i l =
     (let ch = next_ch l; l = l\<lparr>next_ch := Suc ch\<rparr> in
      go_bind (str_upto ID_LENGTH i) (\<lambda>id.
        if length id \<noteq> ID_LENGTH then Inl (Exit ''Invalid docker ID length'')
        else if in_map id (waiters l) then Inr (ch, l)
        else Inr (ch, l\<lparr>waiters := (waiters l)(id \<mapsto> ch)\<rparr>)))"

definition close_chan :: "nat \<Rightarrow> dockerListener \<Rightarrow> dockerListener go" where
  "close_chan ch l =
     (if ch \<in> closed l then Inl (Panic ''close of closed channel'')
      else Inr (l\<lparr>closed := insert ch (closed l)\<rparr>))"

text \<open>One iteration of \<open>Listen\<close>.\<close>

definition listen_event :: "docker_event \<Rightarrow> dockerListener \<Rightarrow> dockerListener go" where
  "listen_event evt l =
     go_bind (str_upto ID_LENGTH (Id evt)) (\<lambda>id.
       if length id \<noteq> ID_LENGTH then Inl (Exit ''Invalid docker ID length'')
       else if \<not> (Status evt = ''die'' \<or> Status evt = ''kill'') then Inr l
       else (case waiters l id of
               None \<Rightarrow> Inr l
             | Some ch \<Rightarrow> go_bind (close_chan ch l) (\<lambda>l. Inr (l\<lparr>waiters := (waiters l)(id := None)\<rparr>))))"

definition Listen :: "docker_event list \<Rightarrow> dockerListener \<Rightarrow> dockerListener go" where
  "Listen evts l = go_fold listen_event evts l"

definition TrackerCleanUp ::
    "get \<Rightarrow> (string \<Rightarrow> err \<times> string list) \<Rightarrow> (string list \<Rightarrow> string list) \<Rightarrow> string list \<Rightarrow>
     's tracker \<Rightarrow> 's tracker go" where
  "TrackerCleanUp get unmarshal perm ks tracker =
     go_bind (GetLiveDockerContainers get unmarshal RETRY) (\<lambda>all_containers.
       if length all_containers > 0 then CleanUp perm ks (map_of all_containers) tracker
       else Inr tracker)"

text \<open>Waiters and events in any order: the calls other goroutines make.\<close>

datatype op = Block string | Evt docker_event

fun listener_op :: "op \<Rightarrow> dockerListener \<Rightarrow> dockerListener go" where
  "listener_op (Block i) l = go_bind (BlockUntilContainerStops i l) (\<lambda>(_, l). Inr l)"
| "listener_op (Evt evt) l = listen_event evt l"

abbreviation listener_run :: "op list \<Rightarrow> dockerListener \<Rightarrow> dockerListener go" where
  "listener_run \<equiv> go_fold listener_op"

section \<open>The invariant\<close>

text \<open>A registered channel is open, was created, and is registered once.\<close>

definition wf_listener :: "dockerListener \<Rightarrow> bool" where
  "wf_listener l \<longleftrightarrow>
     (\<forall>id ch. waiters l id = Some ch \<longrightarrow> ch < next_ch l \<and> ch \<notin> closed l) \<and>
     (\<forall>id id' ch. waiters l id = Some ch \<longrightarrow> waiters l id' = Some ch \<longrightarrow> id = id') \<and>
     (\<forall>ch \<in> closed l. ch < next_ch l)"

lemma wf_init [simp]: "wf_listener init_listener"
  by (simp add: wf_listener_def init_listener_def)

abbreviation key :: "string \<Rightarrow> string" where
  "key \<equiv> take ID_LENGTH"

fun op_id :: "op \<Rightarrow> string" where
  "op_id (Block i) = i"
| "op_id (Evt evt) = Id evt"

definition stops :: "string \<Rightarrow> op \<Rightarrow> bool" where
  "stops k a \<longleftrightarrow> (\<exists>evt. a = Evt evt \<and> key (Id evt) = k \<and> (Status evt = ''die'' \<or> Status evt = ''kill''))"

lemma Block_eq [op_simps]:
  "BlockUntilContainerStops i l =
     (if length i < ID_LENGTH then Inl (Panic ''slice bounds out of range'')
      else Inr (next_ch l, if key i \<in> dom (waiters l) then l\<lparr>next_ch := Suc (next_ch l)\<rparr>
        else l\<lparr>next_ch := Suc (next_ch l), waiters := (waiters l)(key i \<mapsto> next_ch l)\<rparr>))"
  by (simp add: BlockUntilContainerStops_def Let_def go_simps str_upto_def)

lemma listen_event_eq [op_simps]:
  "wf_listener l \<Longrightarrow> ID_LENGTH \<le> length (Id evt) \<Longrightarrow> listen_event evt l =
     Inr (if stops (key (Id evt)) (Evt evt) then
            (case waiters l (key (Id evt)) of
               None \<Rightarrow> l
             | Some ch \<Rightarrow> l\<lparr>closed := insert ch (closed l), waiters := (waiters l)(key (Id evt) := None)\<rparr>)
          else l)"
  by (auto simp: listen_event_def go_simps stops_def close_chan_def wf_listener_def split: option.splits)

lemma listener_op_wf:
  assumes "wf_listener l" and "ID_LENGTH \<le> length (op_id a)"
  shows "\<exists>l'. listener_op a l = Inr l' \<and> wf_listener l'"
proof (cases a)
  case (Block i)
  with assms have "wf_listener (snd (projr (BlockUntilContainerStops i l)))"
    by (auto simp: Block_eq wf_listener_def less_Suc_eq)
  with Block assms show ?thesis by (auto simp: Block_eq)
next
  case (Evt evt)
  with assms show ?thesis
    by (auto simp: listen_event_eq wf_listener_def split: option.split)
qed

lemma listener_run_wf:
  "wf_listener l \<Longrightarrow> \<forall>a \<in> set ops. ID_LENGTH \<le> length (op_id a) \<Longrightarrow>
   \<exists>l'. listener_run ops l = Inr l' \<and> wf_listener l'"
  using listener_op_wf by (intro go_fold_total) auto

text \<open>An id that is too short panics in either operation.\<close>

lemma listener_op_short:
  "length (op_id a) < ID_LENGTH \<Longrightarrow> listener_op a l = Inl (Panic ''slice bounds out of range'')"
  by (cases a) (simp_all add: Block_eq listen_event_def str_upto_def)

lemma listener_run_ends:
  "wf_listener l \<Longrightarrow>
   (case listener_run ops l of
      Inr l \<Rightarrow> wf_listener l \<and> (\<forall>a \<in> set ops. ID_LENGTH \<le> length (op_id a))
    | Inl e \<Rightarrow> e = Panic ''slice bounds out of range'' \<and> (\<exists>a \<in> set ops. length (op_id a) < ID_LENGTH))"
proof (induction ops arbitrary: l)
  case (Cons a ops)
  show ?case
  proof (cases "ID_LENGTH \<le> length (op_id a)")
    case True
    with listener_op_wf [OF Cons.prems] obtain l1 where l1: "listener_op a l = Inr l1" "wf_listener l1" by blast
    from Cons.IH [OF l1(2)] l1(1) True show ?thesis by (auto split: sum.splits)
  next
    case False
    with listener_op_short [of a l] show ?thesis by auto
  qed
qed simp

text \<open>What happens to one registered channel.\<close>

lemma listener_op_open:
  assumes "wf_listener l" and "waiters l k = Some ch" and "listener_op a l = Inr l'"
  shows "if stops k a then ch \<in> closed l' else waiters l' k = Some ch"
proof (cases a)
  case (Block i)
  with assms show ?thesis by (auto simp: Block_eq stops_def split: if_splits)
next
  case (Evt evt)
  then have len: "ID_LENGTH \<le> length (Id evt)"
    using assms(3) by (auto simp: listen_event_def go_bind_eq_Inr go_simps)
  with Evt assms show ?thesis
    by (auto simp: listen_event_eq stops_def split: option.splits if_splits)
qed

lemma listener_op_closed: "listener_op a l = Inr l' \<Longrightarrow> closed l \<subseteq> closed l'"
  by (cases a)
    (auto simp: Block_eq listen_event_def go_bind_eq_Inr close_chan_def split: if_splits option.splits)

text \<open>A channel that is not registered is never closed, once it was created.\<close>

lemma listener_op_unregistered:
  "listener_op a l = Inr l' \<Longrightarrow> ch < next_ch l \<Longrightarrow> ch \<notin> ran (waiters l) \<Longrightarrow> ch \<notin> closed l \<Longrightarrow>
   ch < next_ch l' \<and> ch \<notin> ran (waiters l') \<and> ch \<notin> closed l'"
  by (cases a)
    (auto simp: Block_eq listen_event_def go_bind_eq_Inr close_chan_def ran_def
      split: if_splits option.splits)

lemma listener_run_unregistered:
  "listener_run ops l = Inr l' \<Longrightarrow> ch < next_ch l \<Longrightarrow> ch \<notin> ran (waiters l) \<Longrightarrow> ch \<notin> closed l \<Longrightarrow>
   ch \<notin> closed l'"
proof (induction ops arbitrary: l)
  case (Cons a ops)
  then show ?case using listener_op_unregistered [of a l] by (auto simp: go_bind_eq_Inr)
qed simp

lemma listener_run_closed: "listener_run ops l = Inr l' \<Longrightarrow> closed l \<subseteq> closed l'"
proof (induction ops arbitrary: l)
  case (Cons a ops)
  then show ?case using listener_op_closed [of a l] by (force simp: go_bind_eq_Inr)
qed simp

lemma listener_run_open:
  "listener_run ops l = Inr l' \<Longrightarrow> wf_listener l \<Longrightarrow> \<forall>a \<in> set ops. ID_LENGTH \<le> length (op_id a) \<Longrightarrow>
   waiters l k = Some ch \<Longrightarrow> ch \<in> closed l' \<longleftrightarrow> (\<exists>a \<in> set ops. stops k a)"
proof (induction ops arbitrary: l)
  case Nil
  then show ?case by (auto simp: wf_listener_def)
next
  case (Cons a ops)
  then obtain l1 where l1: "listener_op a l = Inr l1" "listener_run ops l1 = Inr l'"
    by (auto simp: go_bind_eq_Inr)
  with Cons.prems have "wf_listener l1" using listener_op_wf [of l a] by auto
  with Cons l1 listener_op_open [OF Cons.prems(2,4) l1(1)] listener_run_closed [OF l1(2)]
  show ?case by (cases "stops k a") auto
qed

lemma TrackerCleanUp_live:
  assumes "\<And>i. 0 \<le> i \<Longrightarrow> i < RETRY \<Longrightarrow> lists_ids get unmarshal i (js i)"
    and "\<not> mux t" and "rearranges perm" and "ranges ks (insts t)"
  shows "TrackerCleanUp get unmarshal perm ks t =
    Inr (let live = (\<Union>i\<in>{0..<RETRY}. key ` set (js i)) in
         if live = {} then t else set_insts (insts t |` live) t)"
proof -
  from live_from_eq [of 0 RETRY get unmarshal js "[]"] assms(1) obtain ids
    where ids: "GetLiveDockerContainers get unmarshal RETRY = Inr ids"
      "fst ` set ids = (\<Union>i\<in>{0..<RETRY}. key ` set (js i))"
    by (auto simp: GetLiveDockerContainers_def RETRY_def)
  have "dom (map_of ids) = fst ` set ids" by (simp add: dom_map_of_conv_image_fst)
  moreover have "length ids > 0 \<longleftrightarrow> fst ` set ids \<noteq> {}" by simp
  ultimately show ?thesis
    using assms(2-) by (simp add: TrackerCleanUp_def ids CleanUp_eq Let_def flip: ids(2))
qed

section \<open>Properties\<close>

text \<open>
  C22. The listener never closes a channel twice and never stops, whatever the order of waiters and docker
  events, but for one reason: it panics, and with it \<open>apptail\<close>, if and only if some waiter or event has
  an id of fewer than the twelve characters it slices off.
\<close>

theorem listener_panics_only_on_short_ids:
  "case listener_run ops init_listener of
     Inr l \<Rightarrow> wf_listener l \<and> (\<forall>a \<in> set ops. ID_LENGTH \<le> length (op_id a))
   | Inl e \<Rightarrow> e = Panic ''slice bounds out of range'' \<and> (\<exists>a \<in> set ops. length (op_id a) < ID_LENGTH)"
  by (rule listener_run_ends) simp

text \<open>
  C19. A goroutine that waits for a container nobody else waits for is released exactly when docker
  reports that the container died or was killed, whatever other waiters and events come between.
\<close>

theorem waiter_released_by_stop:
  assumes "listener_run before init_listener = Inr l0" and "key i \<notin> dom (waiters l0)"
    and "BlockUntilContainerStops i l0 = Inr (ch, l)" and "listener_run ops l = Inr l'"
    and "\<forall>a \<in> set (before @ ops). ID_LENGTH \<le> length (op_id a)"
  shows "ch \<in> closed l' \<longleftrightarrow> (\<exists>a \<in> set ops. stops (key i) a)"
proof -
  have "wf_listener l0" using listener_run_wf [OF wf_init, of before] assms(1,5) by auto
  moreover have len: "ID_LENGTH \<le> length i" using assms(3) by (auto simp: Block_eq split: if_splits)
  ultimately have "wf_listener l"
    using listener_op_wf [of l0 "Block i"] assms(3) by auto
  moreover have "waiters l (key i) = Some ch"
    using assms(2,3) len by (auto simp: Block_eq)
  ultimately show ?thesis using listener_run_open [OF assms(4)] assms(5) by simp
qed

definition evt_of :: "string \<Rightarrow> string \<Rightarrow> docker_event" where
  "evt_of i st = \<lparr>Id = i, Status = st, From = ''img'', Time = 0\<rparr>"

lemma evt_of_simps [simp]: "Id (evt_of i st) = i" "Status (evt_of i st) = st"
  by (simp_all add: evt_of_def)

theorem listener_panics_only_on_short_ids_witness:
  "listener_run [Block ''0123456789abcdef'', Evt (evt_of ''0123456789ab'' ''die''), Evt (evt_of ''busybox'' ''delete'')]
     init_listener = Inl (Panic ''slice bounds out of range'') \<and>
   (\<exists>l. listener_run [Block ''0123456789abcdef'', Evt (evt_of ''0123456789ab'' ''die'')] init_listener = Inr l)"
proof
  let ?ok = "[Block ''0123456789abcdef'', Evt (evt_of ''0123456789ab'' ''die'')]"
  show "listener_run [Block ''0123456789abcdef'', Evt (evt_of ''0123456789ab'' ''die''),
      Evt (evt_of ''busybox'' ''delete'')] init_listener = Inl (Panic ''slice bounds out of range'')"
    using listener_panics_only_on_short_ids [of "?ok @ [Evt (evt_of ''busybox'' ''delete'')]"]
    by (auto simp del: go_fold.simps simp: ID_LENGTH_def split: sum.split_asm)
  show "\<exists>l. listener_run ?ok init_listener = Inr l"
    using listener_panics_only_on_short_ids [of ?ok]
    by (auto simp del: go_fold.simps simp: ID_LENGTH_def split: sum.split_asm)
qed

theorem waiter_released_by_stop_witness:
  "\<exists>ch l l'. BlockUntilContainerStops ''0123456789abcdef'' init_listener = Inr (ch, l) \<and>
     listener_run [Evt (evt_of ''0123456789ab'' ''start''), Evt (evt_of ''0123456789ab'' ''die'')] l = Inr l' \<and>
     ch \<in> closed l'"
proof -
  let ?i = "''0123456789abcdef''"
  let ?ops = "[Evt (evt_of ''0123456789ab'' ''start''), Evt (evt_of ''0123456789ab'' ''die'')]"
  obtain ch l where b: "BlockUntilContainerStops ?i init_listener = Inr (ch, l)"
    by (simp add: Block_eq ID_LENGTH_def)
  then have "wf_listener l"
    using listener_op_wf [of init_listener "Block ?i"] by (auto simp: ID_LENGTH_def)
  then obtain l' where r: "listener_run ?ops l = Inr l'"
    using listener_run_wf [of l ?ops] by (auto simp: ID_LENGTH_def)
  have "ch \<in> closed l' \<longleftrightarrow> (\<exists>a \<in> set ?ops. stops (key ?i) a)"
    by (rule waiter_released_by_stop [of "[]", OF _ _ b r])
      (simp_all add: init_listener_def ID_LENGTH_def)
  moreover have "stops (key ?i) (Evt (evt_of ''0123456789ab'' ''die''))"
    by (simp add: stops_def ID_LENGTH_def)
  ultimately show ?thesis using b r by auto
qed

text \<open>
  A second goroutine waiting for the same container is never released: the listener keeps only
  the first channel ("already added"), so the second one waits on a channel nobody will close.
\<close>

theorem second_waiter_waits_forever:
  assumes "listener_run before init_listener = Inr l0" and "key i \<in> dom (waiters l0)"
    and "BlockUntilContainerStops i l0 = Inr (ch, l)" and "listener_run ops l = Inr l'"
    and "\<forall>a \<in> set before. ID_LENGTH \<le> length (op_id a)"
  shows "ch \<notin> closed l'"
proof -
  have "wf_listener l0" using listener_run_wf [OF wf_init, of before] assms(1,5) by auto
  moreover from assms(2,3) have "ch = next_ch l0" "l = l0\<lparr>next_ch := Suc (next_ch l0)\<rparr>"
    by (auto simp: Block_eq split: if_splits)
  ultimately have "ch < next_ch l" "ch \<notin> ran (waiters l)" "ch \<notin> closed l"
    by (auto simp: wf_listener_def ran_def)
  then show ?thesis by (rule listener_run_unregistered [OF assms(4)])
qed

theorem second_waiter_waits_forever_witness:
  "\<exists>l0 ch l l'. listener_run [Block ''0123456789ab''] init_listener = Inr l0 \<and>
     BlockUntilContainerStops ''0123456789ab'' l0 = Inr (ch, l) \<and>
     listener_run [Evt (evt_of ''0123456789ab'' ''die'')] l = Inr l' \<and> ch \<notin> closed l'"
proof -
  let ?i = "''0123456789ab''"
  let ?ops = "[Evt (evt_of ?i ''die'')]"
  obtain l0 where r0: "listener_run [Block ?i] init_listener = Inr l0" "wf_listener l0"
    using listener_run_wf [OF wf_init, of "[Block ?i]"] by (auto simp: ID_LENGTH_def)
  then have d: "key ?i \<in> dom (waiters l0)"
    by (auto simp: Block_eq ID_LENGTH_def init_listener_def)
  obtain ch l where b: "BlockUntilContainerStops ?i l0 = Inr (ch, l)"
    by (simp add: Block_eq ID_LENGTH_def)
  with r0(2) have "wf_listener l"
    using listener_op_wf [of l0 "Block ?i"] by (auto simp: ID_LENGTH_def)
  then obtain l' where r: "listener_run ?ops l = Inr l'"
    using listener_run_wf [of l ?ops] by (auto simp: ID_LENGTH_def)
  have "ch \<notin> closed l'"
    by (rule second_waiter_waits_forever [OF r0(1) d b r]) (simp add: ID_LENGTH_def)
  with r0(1) b r show ?thesis by blast
qed

text \<open>
  C32. Starting up forgets exactly the containers docker no longer lists: when the requests are
  answered, \<open>TrackerCleanUp\<close> keeps the remembered containers that some answer lists, with their
  offsets; when docker lists none at all, it keeps everything.
\<close>

theorem TrackerCleanUp_keeps_live:
  assumes "\<And>i. 0 \<le> i \<Longrightarrow> i < RETRY \<Longrightarrow> lists_ids get unmarshal i (js i)"
    and "\<not> mux t" and "rearranges perm" and "ranges ks (insts t)"
  shows "TrackerCleanUp get unmarshal perm ks t =
    Inr (let live = (\<Union>i\<in>{0..<RETRY}. key ` set (js i)) in
         if live = {} then t else set_insts (insts t |` live) t)"
  using TrackerCleanUp_live [OF assms] .

theorem TrackerCleanUp_keeps_live_witness:
  "let t = set_insts [''0123456789ab'' \<mapsto> [''f'' \<mapsto> 3], ''gone'' \<mapsto> Map.empty] demo_tracker in
   \<exists>t'. TrackerCleanUp (\<lambda>_. (Some (None, ''[]''), None)) (\<lambda>_. (None, [''0123456789abcdef'']))
       rev [''0123456789ab'', ''gone''] t = Inr t' \<and> insts t' = [''0123456789ab'' \<mapsto> [''f'' \<mapsto> 3]]"
proof -
  let ?t = "set_insts [''0123456789ab'' \<mapsto> [''f'' \<mapsto> 3], ''gone'' \<mapsto> Map.empty] demo_tracker"
  let ?get = "\<lambda>_::int. (Some (None :: err, ''[]''), None :: err)"
  let ?un = "\<lambda>_::string. (None :: err, [''0123456789abcdef''])"
  have "lists_ids ?get ?un i [''0123456789abcdef'']" for i
    by (simp add: lists_ids_def ID_LENGTH_def)
  moreover have "ranges [''0123456789ab'', ''gone''] (insts ?t)" by (auto simp: ranges_def)
  moreover have "(\<Union>i\<in>{0..<RETRY}. key ` set [''0123456789abcdef'']) = {''0123456789ab''}"
    by (auto simp: RETRY_def ID_LENGTH_def)
  ultimately have "TrackerCleanUp ?get ?un rev [''0123456789ab'', ''gone''] ?t =
      Inr (set_insts (insts ?t |` {''0123456789ab''}) ?t)"
    using TrackerCleanUp_keeps_live [of ?get ?un "\<lambda>_. [''0123456789abcdef'']" ?t rev] by simp
  moreover have "insts ?t |` {''0123456789ab''} = [''0123456789ab'' \<mapsto> [''f'' \<mapsto> 3]]"
    by (auto simp: restrict_map_def fun_eq_iff)
  ultimately show ?thesis by (simp add: Let_def)
qed

end
