(* ===== verification/Instance.thy ===== *)
theory Instance
  imports Log_Files App_Log Docker_Listener
begin

text \<open>
  The rest of \<open>apptail/instance.go\<close>, with \<open>apptail/config.go\<close>: starting the tailers of a container,
  choosing where each begins to read, and copying its lines to the application's log.  The tail
  library is known through what its calls return: whether it could open the file, and the lines it
  then delivers with the offset \<open>Tell\<close> reports.  Timeline events an operation sends are collected in
  the list of their texts.
\<close>

definition STDOUT :: string where "STDOUT = ''stdout''"
definition STDERR :: string where "STDERR = ''stderr''"
definition INITIAL_OFFSET :: int64 where "INITIAL_OFFSET = 0"
definition SEEK_SET :: int where "SEEK_SET = 0"
definition SEEK_END :: int where "SEEK_END = 2"

section \<open>Configuration\<close>

record Config =
  MaxRecordSize :: int64
  MaxLinesPerSecond :: int64
  MaxLinesBurst :: "16 word"
  FileSizeLimit :: int64
  PersistPositionIntervalSeconds :: int64

text \<open>The arguments of \<open>NewLeakyBucket\<close>: the burst size and the interval in nanoseconds.\<close>

definition GetLeakyBucket :: "Config \<Rightarrow> 16 word \<times> int64" where
  "GetLeakyBucket c =
     (let rate = (if MaxLinesPerSecond c <s 1 then 100 else MaxLinesPerSecond c);
          burstSize = (if MaxLinesBurst c < 1 then 10000 else MaxLinesBurst c);
          interval = i64_quot 1000000000 rate
      in (burstSize, interval))"

section \<open>Identity and timeline events\<close>

definition getShortDockerId :: "Instance \<Rightarrow> string go" where
  "getShortDockerId inst = str_upto ID_LENGTH (DockerId inst)"

definition Identifier :: "Instance \<Rightarrow> string go" where
  "Identifier inst = go_bind (str_upto ID_LENGTH (DockerId inst)) (\<lambda>id.
     Inr (InstName inst @ ''['' @ i64_dec (Index inst) @ '':'' @ id @ '']''))"

definition timeline_event :: "node \<Rightarrow> GoTime \<Rightarrow> Instance \<Rightarrow> string \<Rightarrow> Event" where
  "timeline_event N now inst line =
     (let t = \<lparr>TApp = \<lparr>GUID = InstGUID inst, Space = InstSpace inst, Name = InstName inst\<rparr>,
               TInstanceIndex = Index inst\<rparr> in
      \<lparr>Type = ''timeline'', Desc = line, Severity = ''INFO'',
       Info = [(''app'', app_json (TApp t)), (''instance_index'', jint (TInstanceIndex t))],
       Process = ''apptail'', Common = NewMessageCommon line now (LocalNodeId N)\<rparr>)"

section \<open>publishLine\<close>

definition line_message :: "node \<Rightarrow> Instance \<Rightarrow> string \<Rightarrow> string \<Rightarrow> tail_line \<Rightarrow> Message" where
  "line_message N inst source logname line =
     (let msg = \<lparr>LogFilename = logname, Source = source, InstanceIndex = Index inst,
                 AppGUID = InstGUID inst, AppName = InstName inst, AppSpace = InstSpace inst,
                 MCommon = NewMessageCommon (LText line) (LTime line) (LocalNodeId N)\<rparr>
      in if LErr line \<noteq> None
         then msg\<lparr>Source := BrandName N @ ''[apptail]'', LogFilename := []\<rparr> else msg)"

definition publishLineAs ::
    "node \<Rightarrow> Instance \<Rightarrow> string \<Rightarrow> string \<Rightarrow> tail_line option \<Rightarrow> broker \<Rightarrow> broker go" where
  "publishLineAs N inst source logname line pub =
     (case line of
        None \<Rightarrow> Inl (Panic ''line is nil'')
      | Some line \<Rightarrow>
          (case Publish message_Marshal (line_message N inst source logname line) False pub of
             (Some e, _) \<Rightarrow> Inl (Exit (''Unable to publish: '' @ e))
           | (None, pub) \<Rightarrow> Inr pub))"

definition publishLine ::
    "node \<Rightarrow> Instance \<Rightarrow> string \<Rightarrow> tail_line option \<Rightarrow> broker \<Rightarrow> broker go" where
  "publishLine N inst logname line pub = publishLineAs N inst (IType inst) logname line pub"

section \<open>readFromTail\<close>

text \<open>
  What the \<open>select\<close> receives: a line with the result of \<open>Tell\<close>, the end of the lines with the result
  of \<open>Wait\<close>, the stop signal with the result of \<open>Stop\<close>.  The first component of the result tells
  whether the loop has ended, the second the timeline events.
\<close>

datatype tail_event = Line "tail_line option" "int64 \<times> err" | LinesClosed err | StopReceived err

definition finish_tail :: "string \<Rightarrow> err \<Rightarrow> string list" where
  "finish_tail name err =
     (case err of None \<Rightarrow> [] | Some e \<Rightarrow> [''WARN -- Error tailing file ('' @ name @ ''); '' @ e])"

fun readFromTail ::
    "node \<Rightarrow> Instance \<Rightarrow> string \<Rightarrow> string \<Rightarrow> tail_event list \<Rightarrow> 's tracker \<Rightarrow> broker \<Rightarrow>
     ((bool \<times> string list) \<times> 's tracker \<times> broker) go" where
  "readFromTail N inst name filename [] tr pub = Inr ((False, []), tr, pub)"
| "readFromTail N inst name filename (Line line (currentOffset, err) # es) tr pub =
     go_bind (getShortDockerId inst) (\<lambda>k.
     let tr = Update k filename currentOffset tr in
     go_bind (publishLine N inst name line pub) (\<lambda>pub.
       readFromTail N inst name filename es tr pub))"
| "readFromTail N inst name filename (LinesClosed err # es) tr pub =
     go_bind (Identifier inst) (\<lambda>_. Inr ((True, finish_tail name err), tr, pub))"
| "readFromTail N inst name filename (StopReceived err # es) tr pub =
     go_bind (Identifier inst) (\<lambda>_. Inr ((True, finish_tail name err), tr, pub))"

section \<open>tailFile and tailStream\<close>

text \<open>\<open>open_tail\<close> is the error of \<open>tail.TailFile\<close> for a file and a location.\<close>

datatype tailing = Tailing "int64 \<times> int" | NotTailing

definition start_tail ::
    "(string \<Rightarrow> int64 \<times> int \<Rightarrow> err) \<Rightarrow> string \<Rightarrow> string \<Rightarrow> string \<Rightarrow> int64 \<times> int \<Rightarrow> bool \<Rightarrow> err \<Rightarrow>
     string list \<Rightarrow> 's tracker \<Rightarrow> (tailing \<times> string list \<times> 's tracker) go" where
  "start_tail open_tail k name filename location shouldInitialize err sent tr =
     (case err of
        Some e \<Rightarrow> Inr (NotTailing, sent @ [''WARN -- '' @ e], tr)
      | None \<Rightarrow>
          (let terr = open_tail filename location in
           go_bind (if shouldInitialize then InitializeChildNode k filename INITIAL_OFFSET tr
                    else Inr tr) (\<lambda>tr.
             case terr of
               Some e \<Rightarrow> Inr (NotTailing, sent @ [''ERROR -- Cannot tail file ('' @ name @ ''); '' @ e], tr)
             | None \<Rightarrow> Inr (Tailing location, sent, tr))))"

definition tailFile ::
    "fsys \<Rightarrow> Config \<Rightarrow> (string \<Rightarrow> int64 \<times> int \<Rightarrow> err) \<Rightarrow> Instance \<Rightarrow> string \<Rightarrow> string \<Rightarrow>
     's tracker \<Rightarrow> (tailing \<times> string list \<times> 's tracker) go" where
  "tailFile F c open_tail inst name filename tr =
     go_bind (getShortDockerId inst) (\<lambda>k.
     go_bind (IsChildNodeInitialized k filename tr) (\<lambda>(initialized, tr).
       if initialized then
         go_bind (GetFileCachedOffset k filename tr) (\<lambda>(offset, tr).
           start_tail open_tail k name filename (offset, SEEK_SET) False None [] tr)
       else
         go_bind (getReadLimit F (FileSizeLimit c) name filename) (\<lambda>((limit, err), sent).
           start_tail open_tail k name filename (- limit, SEEK_END) True err sent tr)))"

text \<open>
  \<open>http_Get\<close> yields an error or the status code, \<open>parse\<close> the error of \<open>url.Parse\<close>, \<open>open_reader\<close>
  that of \<open>tail.TailReader\<close>.  \<open>Query.Encode\<close> sorts by key.
\<close>

definition stream_url :: "Instance \<Rightarrow> string" where
  "stream_url inst = ''http://localhost:4243/containers/'' @ DockerId inst @ ''/logs''"

definition tailStream ::
    "fsys \<Rightarrow> Config \<Rightarrow> (string \<Rightarrow> err) \<Rightarrow> (string \<Rightarrow> string + int) \<Rightarrow> (int64 \<times> int \<Rightarrow> err) \<Rightarrow> Instance \<Rightarrow>
     string \<Rightarrow> string \<Rightarrow> (tailing \<times> string list) go" where
  "tailStream F c parse http_Get open_reader inst stream filename =
     go_bind (getReadLimit F (FileSizeLimit c) stream filename) (\<lambda>((limit, err), sent).
       case err of
         Some e \<Rightarrow> Inr (NotTailing, sent @ [''WARN -- '' @ e])
       | None \<Rightarrow>
           (case parse (stream_url inst) of
              Some e \<Rightarrow> Inr (NotTailing, sent)
            | None \<Rightarrow>
                (case http_Get (stream_url inst @ ''?follow=true&'' @ stream @ ''=true'') of
                   Inl e \<Rightarrow> Inr (NotTailing, sent @ [''WARN -- '' @ e])
                 | Inr status \<Rightarrow>
                     if status < 200 \<or> status \<ge> 400 then Inr (NotTailing, sent)
                     else (case open_reader (- limit, SEEK_END) of
                             Some e \<Rightarrow> Inr (NotTailing, sent @ [''ERROR -- Cannot tail file ('' @ stream @ ''); '' @ e])
                           | None \<Rightarrow> Inr (Tailing (- limit, SEEK_END), sent)))))"

section \<open>Tail\<close>

text \<open>The goroutines \<open>Tail\<close> starts, and what it does when the container has stopped.\<close>

datatype job = TailStream string string | TailFile string string

definition tail_job :: "Instance \<Rightarrow> string \<times> string \<Rightarrow> job" where
  "tail_job inst e =
     (if DockerStreams inst \<and> (fst e = STDOUT \<or> fst e = STDERR)
      then TailStream (fst e) (snd e) else TailFile (fst e) (snd e))"

definition Tail ::
    "fsys \<Rightarrow> (string \<Rightarrow> err \<times> str_map) \<Rightarrow> ((string \<times> string) list \<Rightarrow> (string \<times> string) list) \<Rightarrow>
     Instance \<Rightarrow> 's tracker \<Rightarrow> (job list \<times> string list \<times> 's tracker) go" where
  "Tail F unmarshal perm inst tr =
     go_bind (Identifier inst) (\<lambda>_.
     go_bind (getLogFiles F unmarshal perm inst) (\<lambda>(logfiles, sent).
     go_bind (getShortDockerId inst) (\<lambda>shortDockerId.
     go_bind (RegisterInstance shortDockerId tr) (\<lambda>tr.
       Inr (map (tail_job inst) (perm logfiles), sent, tr)))))"

definition container_exited :: "Instance \<Rightarrow> 's tracker \<Rightarrow> 's tracker go" where
  "container_exited inst tr =
     go_bind (Identifier inst) (\<lambda>_.
     go_bind (getShortDockerId inst) (\<lambda>shortDockerId. Remove shortDockerId tr))"

section \<open>Lines\<close>

definition app_log_entry :: "node \<Rightarrow> Instance \<Rightarrow> string \<Rightarrow> tail_line \<Rightarrow> string \<times> payload" where
  "app_log_entry N inst name line =
     (''apptail.'' @ InstGUID inst, Doc (message_json (line_message N inst (IType inst) name line)))"

lemma publishLine_ok [op_simps]:
  "publishLine N inst name (Some line) pub = Inr (pub @ [app_log_entry N inst name line])"
  by (simp add: publishLine_def publishLineAs_def Publish_ok app_log_entry_def line_message_def Let_def)

abbreviation line_events :: "(tail_line \<times> int64 \<times> err) list \<Rightarrow> tail_event list" where
  "line_events \<equiv> map (\<lambda>(line, off, e). Line (Some line) (off, e))"

definition updates :: "string \<Rightarrow> string \<Rightarrow> (tail_line \<times> int64 \<times> err) list \<Rightarrow> 's tracker \<Rightarrow> 's tracker" where
  "updates k f ls = fold (\<lambda>(_, off, _). Update k f off) ls"

lemma readFromTail_lines:
  "getShortDockerId inst = Inr k \<Longrightarrow>
   readFromTail N inst name f (line_events ls @ es) tr pub =
   readFromTail N inst name f es (updates k f ls tr) (pub @ map (app_log_entry N inst name \<circ> fst) ls)"
  by (induction ls arbitrary: tr pub) (auto simp: updates_def publishLine_ok Let_def)

lemma offset_of_Update:
  "offset_of (Update k f v t) j g =
     (if (j, g) = (k, f) \<and> offset_of t k f \<noteq> None then Some v else offset_of t j g)"
  by (auto simp: offset_of_def Update_insts split: option.split)

lemma offset_of_updates:
  "offset_of t k f \<noteq> None \<Longrightarrow>
   offset_of (updates k f ls t) k f = (if ls = [] then offset_of t k f else Some (fst (snd (last ls))))"
  by (induction ls arbitrary: t) (auto simp: updates_def offset_of_Update)

lemma updates_ready [simp]: "ready S ok (updates k f ls t) = ready S ok t"
  unfolding updates_def by (induction ls arbitrary: t) (simp_all add: case_prod_unfold)

lemma getShortDockerId_eq [op_simps]:
  "getShortDockerId inst =
     (if ID_LENGTH \<le> length (DockerId inst) then Inr (key (DockerId inst))
      else Inl (Panic ''slice bounds out of range''))"
  by (simp add: getShortDockerId_def str_upto_def)

section \<open>Where reading starts\<close>

lemma tailFile_known:
  assumes "getShortDockerId inst = Inr k" and "\<not> mux t" and "offset_of t k f = Some v"
    and "open_tail f (v, SEEK_SET) = None"
  shows "tailFile F c open_tail inst name f t = Inr (Tailing (v, SEEK_SET), [], t)"
proof -
  have "insts t k \<noteq> None" using assms(3) by (auto simp: offset_of_def split: option.splits)
  with assms show ?thesis
    by (auto simp: tailFile_def start_tail_def IsChildNodeInitialized_eq GetFileCachedOffset_eq)
qed

lemma tailFile_new:
  assumes "getShortDockerId inst = Inr k" and "\<not> mux t" and "k \<in> dom (insts t)"
    and "offset_of t k f = None"
    and "getReadLimit F (FileSizeLimit c) name f = Inr ((limit, None), sent)"
    and "open_tail f (- limit, SEEK_END) = None"
  shows "\<exists>t'. tailFile F c open_tail inst name f t = Inr (Tailing (- limit, SEEK_END), sent, t') \<and>
    \<not> mux t' \<and> offset_of t' k f = Some 0"
  using assms
  by (auto simp: tailFile_def start_tail_def IsChildNodeInitialized_eq InitializeChildNode_eq
      INITIAL_OFFSET_def offset_of_def)

section \<open>Timeline events come back\<close>

text \<open>
  The index goes through an \<open>interface{}\<close>: from a million on it comes back with an exponent, and is no
  longer an integer for \<open>TimelineEvent\<close>.
\<close>

definition small_index :: "Instance \<Rightarrow> bool" where
  "small_index inst \<longleftrightarrow> \<bar>sint (Index inst)\<bar> < 1000000"

lemma timeline_roundtrip:
  "small_index inst \<Longrightarrow>
   Unmarshal timeline_fields (Doc (info_json (iface_members (Info (timeline_event N now inst line))))) zero_TimelineEvent =
     (None, \<lparr>TApp = \<lparr>GUID = clean (InstGUID inst), Space = clean (InstSpace inst), Name = clean (InstName inst)\<rparr>,
             TInstanceIndex = Index inst\<rparr>)"
  by (simp add: timeline_event_def iface_members_def info_json_def Unmarshal_def Unmarshal_struct_def
      timeline_fields_def member_def matches_def lower_def first_err_def struct_field_def app_fields_def
      app_json_def zero_TimelineEvent_def small_index_def iface_parts)

definition timeline_entry :: "node \<Rightarrow> GoTime \<Rightarrow> Instance \<Rightarrow> string \<Rightarrow> string \<times> payload" where
  "timeline_entry N now inst line =
     (''apptail.'' @ clean (InstGUID inst), Doc (message_json
       \<lparr>LogFilename = [],
        Source = (if 0 \<le> sint (Index inst)
                  then BrandName N @ ''[apptail.'' @ i64_dec (Index inst) @ '']''
                  else BrandName N @ ''[apptail]''),
        InstanceIndex = Index inst, AppGUID = clean (InstGUID inst), AppName = clean (InstName inst),
        AppSpace = clean (InstSpace inst),
        MCommon = NewMessageCommon (clean line) (at_unix N (Unix now)) (LocalNodeId N)\<rparr>))"

lemma clean_apptail: "clean ''apptail'' = ''apptail''"
  by (rule clean_valid, rule ValidString_ascii) simp

lemma monitor_timeline:
  "small_index inst \<Longrightarrow> monitor_message N (Doc (event_json (timeline_event N now inst line))) pub =
     Inr (pub @ [timeline_entry N now inst line])"
proof -
  assume small: "small_index inst"
  let ?e = "timeline_event N now inst line"
  have "distinct (map fst (Info ?e))" by (simp add: timeline_event_def)
  then have r: "Unmarshal event_fields (Doc (event_json ?e)) zero_Event = (None, clean_event ?e)"
    by (rule event_roundtrip)
  have i: "Info (clean_event ?e) = iface_members (Info ?e)" by (simp add: clean_event_def)
  have p: "Process (clean_event ?e) = ''apptail''" "Desc (clean_event ?e) = clean line"
    "UnixTime (Common (clean_event ?e)) = Unix now"
    by (simp_all add: clean_event_def timeline_event_def clean_apptail clean_common_def)
  have s: "(- 1 <s w) = (0 \<le> sint w)" for w :: int64
    by (auto simp: word_sless_alt)
  show ?thesis
    by (simp add: monitor_message_def r i p timeline_roundtrip [OF small] PublishAppLog_def Publish_ok
        timeline_entry_def s)
qed

section \<open>Properties\<close>

definition demo_node :: node where
  "demo_node = \<lparr>BrandName = ''stackato'', LocalNodeId = ''10.0.0.1'',
     at_unix = (\<lambda>w. \<lparr>Unix = w, Format = (\<lambda>_. ''now'')\<rparr>)\<rparr>"

definition demo_line :: "string \<Rightarrow> tail_line" where
  "demo_line s = \<lparr>LText = s, LTime = at_unix demo_node 5, LErr = None\<rparr>"

definition demo_known :: "FileStorage tracker" where
  "demo_known = set_insts [''0123456789ab'' \<mapsto> [''/c1/x'' \<mapsto> 7]] demo_tracker"

lemma demo_instance_id [simp]: "getShortDockerId demo_instance = Inr ''0123456789ab''"
  by (simp add: demo_instance_def getShortDockerId_def str_upto_def ID_LENGTH_def)

lemma demo_known_simps [simp]:
  "\<not> mux demo_known" "offset_of demo_known ''0123456789ab'' ''/c1/x'' = Some 7"
  "ready file_storage fs_healthy demo_known"
  by (simp_all add: demo_known_def offset_of_def ready_def)

text \<open>
  C7. Every line of a tailed file is published once, in order, in the name of its instance, and the
  tracker is left with the offset after the last one; ending by the stop signal or by the end of
  the lines publishes nothing more.
\<close>

theorem lines_published_and_tracked:
  assumes "getShortDockerId inst = Inr k" and "offset_of tr k f \<noteq> None" and "ls \<noteq> []"
    and "ending \<in> {LinesClosed err, StopReceived err}"
  shows "\<exists>tr'. readFromTail N inst name f (line_events ls @ [ending]) tr pub =
      Inr ((True, finish_tail name err), tr', pub @ map (app_log_entry N inst name \<circ> fst) ls) \<and>
    offset_of tr' k f = Some (fst (snd (last ls))) \<and>
    (\<forall>j g. (j, g) \<noteq> (k, f) \<longrightarrow> offset_of tr' j g = offset_of tr j g)"
proof -
  obtain i where i: "Identifier inst = Inr i"
    using assms(1) by (auto simp: Identifier_def getShortDockerId_def)
  have others: "(j, g) \<noteq> (k, f) \<Longrightarrow> offset_of (updates k f ls tr) j g = offset_of tr j g" for j g
    by (induction ls arbitrary: tr) (auto simp: updates_def offset_of_Update)
  have "readFromTail N inst name f (line_events ls @ [ending]) tr pub =
      Inr ((True, finish_tail name err), updates k f ls tr,
           pub @ map (app_log_entry N inst name \<circ> fst) ls)"
    using assms(4) i by (auto simp only: readFromTail_lines [OF assms(1)] readFromTail.simps go_bind_Inr)
  with others offset_of_updates [OF assms(2), of ls] assms(3) show ?thesis by auto
qed

theorem lines_published_and_tracked_witness:
  "\<exists>tr'. readFromTail demo_node demo_instance ''a'' ''/c1/x''
       (line_events [(demo_line ''one'', 11, None), (demo_line ''two'', 15, None)] @ [StopReceived None])
       demo_known [] =
     Inr ((True, []), tr', [app_log_entry demo_node demo_instance ''a'' (demo_line ''one''),
       app_log_entry demo_node demo_instance ''a'' (demo_line ''two'')]) \<and>
     offset_of tr' ''0123456789ab'' ''/c1/x'' = Some 15"
  using lines_published_and_tracked [of demo_instance "''0123456789ab''" demo_known "''/c1/x''"
      "[(demo_line ''one'', 11, None), (demo_line ''two'', 15, None)]" "StopReceived None" None
      demo_node "''a''" "[]"]
  by (auto simp: finish_tail_def)

text \<open>
  The read limit holds only until the tailer is started again: a file seen for the first time is
  read from its last \<open>limit\<close> bytes, but its remembered offset is 0, so when \<open>apptail\<close> restarts
  before a line arrived it is read from the beginning, however large it is.
\<close>

theorem restart_ignores_read_limit:
  assumes "getShortDockerId inst = Inr k" and "\<not> mux t" and "k \<in> dom (insts t)"
    and "offset_of t k f = None"
    and "getReadLimit F (FileSizeLimit c) name f = Inr ((limit, None), sent)"
    and "\<And>loc. open_tail f loc = None"
  shows "\<exists>t'. tailFile F c open_tail inst name f t = Inr (Tailing (- limit, SEEK_END), sent, t') \<and>
    tailFile F c open_tail inst name f t' = Inr (Tailing (0, SEEK_SET), [], t')"
  using tailFile_new [OF assms(1-5)] tailFile_known [OF assms(1)] assms(6) by metis

theorem restart_ignores_read_limit_witness:
  "\<exists>t'. tailFile demo_fsys \<lparr>MaxRecordSize = 0, MaxLinesPerSecond = 0, MaxLinesBurst = 0, FileSizeLimit = 16,
        PersistPositionIntervalSeconds = 0\<rparr> (\<lambda>_ _. None) demo_instance ''a'' ''/c1/y'' demo_known =
      Inr (Tailing (- 10, SEEK_END), [], t') \<and>
     tailFile demo_fsys \<lparr>MaxRecordSize = 0, MaxLinesPerSecond = 0, MaxLinesBurst = 0, FileSizeLimit = 16,
        PersistPositionIntervalSeconds = 0\<rparr> (\<lambda>_ _. None) demo_instance ''a'' ''/c1/y'' t' =
      Inr (Tailing (0, SEEK_SET), [], t')"
proof -
  let ?c = "\<lparr>MaxRecordSize = 0, MaxLinesPerSecond = 0, MaxLinesBurst = 0, FileSizeLimit = 16,
        PersistPositionIntervalSeconds = 0\<rparr>"
  have "''0123456789ab'' \<in> dom (insts demo_known)" by (simp add: demo_known_def)
  moreover have "offset_of demo_known ''0123456789ab'' ''/c1/y'' = None"
    by (simp add: demo_known_def offset_of_def)
  moreover have "getReadLimit demo_fsys (FileSizeLimit ?c) ''a'' ''/c1/y'' = Inr ((10, None), [])"
    by (simp add: getReadLimit_def demo_fsys_def word_sless_alt)
  ultimately show ?thesis
    by (rule restart_ignores_read_limit [OF demo_instance_id demo_known_simps(1)]) simp
qed

text \<open>
  C12. A timeline event an instance sends reaches the log of its application: published by the
  instance's channel and received by \<open>MonitorCloudEvents\<close>, it appears once, in order, under the key
  of the application with its text, names and index, as coming from the \<open>apptail\<close> of that index.  The
  index is below a million: it travels as a \<open>float64\<close>, which a larger one does not survive.
\<close>

theorem timeline_events_reach_app_log:
  assumes "pubsteps (New ''event.timeline'' []) acts c"
    and "sends acts = map (\<lambda>(now, line). timeline_event N now inst line) sent"
    and "\<bar>sint (Index inst)\<bar> < 1000000"
  shows "MonitorCloudEvents N (map snd (out c)) pub =
    Inr (pub @ map (\<lambda>(now, line). timeline_entry N now inst line) sent)"
proof -
  have o: "map snd (out c) = map (\<lambda>(now, line). Doc (event_json (timeline_event N now inst line))) sent"
    using pubsteps_out [OF assms(1)] assms(2) by (simp add: New_def case_prod_unfold comp_def)
  show ?thesis
    unfolding o MonitorCloudEvents_def
    by (induction sent arbitrary: pub) (auto simp: monitor_timeline small_index_def assms(3))
qed

lemma demo_index: "\<bar>sint (Index demo_instance)\<bar> < 1000000"
  by (simp add: demo_instance_def)

theorem timeline_events_reach_app_log_witness:
  "\<exists>c. pubsteps (New ''event.timeline'' []) [TimeAfter, SendOn (timeline_event demo_node (LTime (demo_line [])) demo_instance ''hi'')] c \<and>
     MonitorCloudEvents demo_node (map snd (out c)) [] =
       Inr [timeline_entry demo_node (LTime (demo_line [])) demo_instance ''hi'']"
proof -
  let ?t = "LTime (demo_line [])"
  let ?e = "timeline_event demo_node ?t demo_instance ''hi''"
  let ?initial = "New ''event.timeline'' []"
  let ?serving = "?initial\<lparr>loop_pc := Serving\<rparr>"
  let ?sent = "?serving\<lparr>out := pub_MustPublish (ch_key ?serving) (Doc (event_json ?e)) (out ?serving)\<rparr>"
  have s1: "pubstep ?initial TimeAfter ?serving" by (rule delay_over) (simp add: New_def)
  have s2: "pubstep ?serving (SendOn ?e) ?sent"
    by (rule sent) (simp_all add: event_Marshal_def)
  have r: "pubsteps ?initial [TimeAfter, SendOn ?e] ?sent"
    by (rule pub_cons [OF s1 pub_cons [OF s2 pub_nil]])
  have "sends [TimeAfter, SendOn ?e] =
      map (\<lambda>(now, line). timeline_event demo_node now demo_instance line) [(?t, ''hi'')]"
    by simp
  from timeline_events_reach_app_log [OF r this, of "[]"] r demo_index show ?thesis by auto
qed

text \<open>
  C37. \<open>GetLeakyBucket\<close> never divides by zero and never makes an empty bucket, whatever is configured,
  left out or negative: the bucket holds at least one line, and it drains at the configured rate with
  the interval rounded down to a nanosecond, so never more slowly than configured.
\<close>

theorem leaky_bucket_bounds:
  "let (burst, interval) = GetLeakyBucket c;
       rate = if 1 \<le> sint (MaxLinesPerSecond c) then sint (MaxLinesPerSecond c) else 100
   in 0 < burst \<and> 0 \<le> sint interval \<and>
      sint interval * rate \<le> 1000000000 \<and> 1000000000 < (sint interval + 1) * rate"
proof -
  define rate where "rate = (if MaxLinesPerSecond c <s 1 then 100 else MaxLinesPerSecond c)"
  have rate: "sint rate = (if 1 \<le> sint (MaxLinesPerSecond c) then sint (MaxLinesPerSecond c) else 100)"
    by (simp add: rate_def word_sless_alt)
  then have "0 < sint rate" by simp
  then have interval: "sint (i64_quot 1000000000 rate) = 1000000000 div sint rate"
    by (simp add: sint_i64_quot)
  have "1000000000 div sint rate * sint rate \<le> 1000000000"
    "1000000000 < (1000000000 div sint rate + 1) * sint rate" "0 \<le> 1000000000 div sint rate"
    using \<open>0 < sint rate\<close> pos_mod_bound [of "sint rate" 1000000000] pos_mod_sign [of "sint rate" 1000000000]
    by (simp_all add: distrib_right pos_imp_zdiv_nonneg_iff flip: minus_mod_eq_div_mult)
  then show ?thesis
    by (simp add: GetLeakyBucket_def Let_def interval word_gt_0 flip: rate_def rate)
qed

end
