(* ===== verification/Tailers.thy ===== *)
theory Tailers
  imports Commits Instance
begin

text \<open>
  A running \<open>apptail\<close>: the goroutines that tail files (\<open>readFromTail\<close> of \<open>apptail/instance.go\<close>)
  interleaved with those that commit the tracker, and what is found after a crash.  One iteration
  of the loop of \<open>readFromTail\<close> is two atomic pieces: storing the offset, and publishing the line.
  Every tailer has a publisher of its own.  A crash may fall between any two pieces, those of a write
  of the state file among them.
\<close>

section \<open>The pieces of readFromTail\<close>

definition line_received ::
    "Instance \<Rightarrow> string \<Rightarrow> tail_line \<times> int64 \<times> err \<Rightarrow> 's tracker \<Rightarrow> 's tracker go" where
  "line_received inst filename l tr =
     go_bind (getShortDockerId inst) (\<lambda>k. Inr (Update k filename (fst (snd l)) tr))"

definition line_published ::
    "node \<Rightarrow> Instance \<Rightarrow> string \<Rightarrow> tail_line \<times> int64 \<times> err \<Rightarrow> broker \<Rightarrow> broker go" where
  "line_published N inst name l pub = publishLine N inst name (Some (fst l)) pub"

lemma readFromTail_pieces:
  "readFromTail N inst name f (line_events [l] @ es) tr pub =
     go_bind (line_received inst f l tr) (\<lambda>tr.
     go_bind (line_published N inst name l pub) (\<lambda>pub. readFromTail N inst name f es tr pub))"
  by (cases l) (simp add: line_received_def line_published_def go_bind_assoc)

section \<open>The interleaved process\<close>

text \<open>
  \<open>t_recs\<close> are the records the tail library will deliver to a tailer, \<open>t_tell\<close> is what \<open>Tell\<close> answers
  when so many of them have been received.  The loop receives a record and asks then.
\<close>

record tailer =
  t_inst :: Instance
  t_name :: string
  t_file :: string
  t_recs :: "tail_line list"
  t_tell :: "nat \<Rightarrow> int64 \<times> err"

definition from_tail :: "(nat \<Rightarrow> int64 \<times> err) \<Rightarrow> tail_line list \<Rightarrow> (tail_line \<times> int64 \<times> err) list" where
  "from_tail tell ls = map (\<lambda>j. (ls ! j, tell (Suc j))) [0..<length ls]"

definition t_lines :: "tailer \<Rightarrow> (tail_line \<times> int64 \<times> err) list" where
  "t_lines T = from_tail (t_tell T) (t_recs T)"

lemma from_tail_simps [simp]:
  "length (from_tail tell ls) = length ls" "map fst (from_tail tell ls) = ls"
  "j < length ls \<Longrightarrow> from_tail tell ls ! j = (ls ! j, tell (Suc j))" "from_tail tell ls = [] \<longleftrightarrow> ls = []"
  by (simp_all add: from_tail_def comp_def map_nth)

record process =
  tsys :: "FileStorage system"
  taken :: "nat \<Rightarrow> nat"
  sending :: "nat \<Rightarrow> bool"
  pubs :: "nat \<Rightarrow> broker"

definition launch :: "FileStorage tracker \<Rightarrow> process" where
  "launch t = \<lparr>tsys = start t, taken = (\<lambda>_. 0), sending = (\<lambda>_. False), pubs = (\<lambda>_. [])\<rparr>"

definition t_key :: "tailer \<Rightarrow> string" where
  "t_key T = key (DockerId (t_inst T))"

definition file_offset :: "tailer \<Rightarrow> FileStorage tracker \<Rightarrow> int64 option" where
  "file_offset T t = offset_of t (t_key T) (t_file T)"

text \<open>
  \<open>others\<close>: any step of the other goroutines that does not set the offset of a file being tailed: a
  commit in any of its pieces, the removal of another container, the start of another tailer.
\<close>

inductive tstep :: "node \<Rightarrow> tailer list \<Rightarrow> process \<Rightarrow> process \<Rightarrow> bool" for N ts where
  receives: "i < length ts \<Longrightarrow> \<not> sending p i \<Longrightarrow> taken p i < length (t_lines (ts ! i)) \<Longrightarrow>
    line_received (t_inst (ts ! i)) (t_file (ts ! i)) (t_lines (ts ! i) ! taken p i) (trk (tsys p)) = Inr t \<Longrightarrow>
    tstep N ts p (p\<lparr>tsys := (tsys p)\<lparr>trk := t\<rparr>, taken := (taken p)(i := Suc (taken p i)),
                     sending := (sending p)(i := True)\<rparr>)"
| publishes: "i < length ts \<Longrightarrow> sending p i \<Longrightarrow>
    line_published N (t_inst (ts ! i)) (t_name (ts ! i)) (t_lines (ts ! i) ! (taken p i - 1)) (pubs p i) = Inr b \<Longrightarrow>
    tstep N ts p (p\<lparr>sending := (sending p)(i := False), pubs := (pubs p)(i := b)\<rparr>)"
| others: "gstep (tsys p) s \<Longrightarrow> \<forall>T \<in> set ts. file_offset T (trk s) = file_offset T (trk (tsys p)) \<Longrightarrow>
    tstep N ts p (p\<lparr>tsys := s\<rparr>)"

inductive_cases tstepE: "tstep N ts p p'"

text \<open>Different tailers tail different files.\<close>

definition apart :: "tailer list \<Rightarrow> bool" where
  "apart ts \<longleftrightarrow> distinct (map (\<lambda>T. (t_key T, t_file T)) ts)"

section \<open>The invariant\<close>

text \<open>The offset after the first \<open>n\<close> lines; \<open>v\<close> is where the tailer began.\<close>

definition offset_after :: "int64 \<Rightarrow> tailer \<Rightarrow> nat \<Rightarrow> int64" where
  "offset_after v T n = (if n = 0 then v else fst (snd (t_lines T ! (n - 1))))"

text \<open>The offset a state file holds for the file of a tailer.\<close>

definition saved_offset :: "tailer \<Rightarrow> blob \<Rightarrow> int64 option" where
  "saved_offset T b = (case instances_in (Some b) (t_key T) of None \<Rightarrow> None | Some node \<Rightarrow> node (t_file T))"

definition saved_after :: "int64 \<Rightarrow> tailer \<Rightarrow> nat \<Rightarrow> blob \<Rightarrow> bool" where
  "saved_after v T n b \<longleftrightarrow> (\<exists>m \<le> n. saved_offset T b = Some (offset_after v T m))"

definition published :: "node \<Rightarrow> tailer \<Rightarrow> nat \<Rightarrow> broker" where
  "published N T n = map (app_log_entry N (t_inst T) (t_name T) \<circ> fst) (take n (t_lines T))"

definition tail_inv :: "node \<Rightarrow> tailer list \<Rightarrow> nat \<Rightarrow> int64 \<Rightarrow> blob \<Rightarrow> process \<Rightarrow> bool" where
  "tail_inv N ts i v b0 p \<longleftrightarrow>
     (let T = ts ! i; n = taken p i in
      holding (saved_after v T n) (\<lambda>b. b = b0 \<or> saved_after v T n b) (tsys p) \<and> stored (tsys p) \<noteq> None \<and>
      file_offset T (trk (tsys p)) = Some (offset_after v T n) \<and>
      n \<le> length (t_lines T) \<and> (sending p i \<longrightarrow> 0 < n) \<and>
      pubs p i = published N T (if sending p i then n - 1 else n))"

lemma saved_offset_Gob [simp]: "saved_offset T (Gob (Cached t)) = file_offset T t"
  by (simp add: saved_offset_def instances_in_def file_offset_def offset_of_def)

lemma saved_after_Suc: "saved_after v T n b \<Longrightarrow> saved_after v T (Suc n) b"
  unfolding saved_after_def using le_SucI by blast

lemma saved_after_now:
  "file_offset T t = Some (offset_after v T n) \<Longrightarrow> saved_after v T n (Gob (Cached t))"
  by (auto simp: saved_after_def)

lemma line_received_eq:
  "line_received inst f l t = Inr t' \<Longrightarrow>
   t' = Update (key (DockerId inst)) f (fst (snd l)) t \<and> getShortDockerId inst = Inr (key (DockerId inst))"
  by (auto simp: line_received_def getShortDockerId_eq split: if_splits)

lemma Update_ready [simp]: "ready S ok (Update k f v t) = ready S ok t"
  using updates_ready [of S ok k f "[(undefined, v, None)]" t] by (simp add: updates_def)

lemma published_snoc:
  "n < length (t_lines T) \<Longrightarrow>
   line_published N (t_inst T) (t_name T) (t_lines T ! n) (published N T n) = Inr (published N T (Suc n))"
  by (simp add: line_published_def publishLine_ok published_def take_Suc_conv_app_nth)

lemma gstep_stored:
  assumes "gstep s s'" and "sound s" and "stored s \<noteq> None"
  shows "stored s' \<noteq> None"
  using assms(1)
proof cases
  case (call c t)
  with api_file [OF call(3) assms(2)] assms(3) show ?thesis by auto
next
  case (put_piece g p d p')
  with assms(3) show ?thesis by (cases p) (auto dest: pieces_done split: sum.splits)
qed (use assms in \<open>auto simp: delete_key_eq ready_unlocked getBuffer_file\<close>)

lemma tail_inv_launch:
  assumes "ready file_storage fs_healthy t" and "fs_stored (backend t) = Some b0"
    and "file_offset (ts ! i) t = Some v"
  shows "tail_inv N ts i v b0 (launch t)"
  using assms
  by (auto simp: tail_inv_def launch_def offset_after_def published_def Let_def intro: holding_start)

lemma tail_inv_step:
  assumes "tstep N ts p p'" and "tail_inv N ts i v b0 p" and "i < length ts" and "apart ts"
  shows "tail_inv N ts i v b0 p'"
  using assms(1)
proof cases
  case (receives j t)
  note t = line_received_eq [OF receives(5)]
  have off: "file_offset (ts ! i) t = (if i = j then Some (offset_after v (ts ! i) (Suc (taken p i)))
      else file_offset (ts ! i) (trk (tsys p)))"
  proof (cases "i = j")
    case True
    with assms(2) t show ?thesis
      by (simp add: tail_inv_def Let_def file_offset_def offset_of_Update t_key_def offset_after_def)
  next
    case False
    then have "(t_key (ts ! i), t_file (ts ! i)) \<noteq> (t_key (ts ! j), t_file (ts ! j))"
      using assms(3,4) receives(2) by (simp add: apart_def distinct_conv_nth)
    with False t show ?thesis by (auto simp: file_offset_def offset_of_Update t_key_def)
  qed
  have "ready file_storage fs_works t \<longleftrightarrow> sound (tsys p)" "backend t = backend (trk (tsys p))"
    using t by simp_all
  then have hold: "holding P Q (tsys p) \<Longrightarrow> holding P Q ((tsys p)\<lparr>trk := t\<rparr>)" for P Q
    by (intro holding_trk) (simp_all add: holding_def)
  let ?P = "\<lambda>n. saved_after v (ts ! i) n"
  have h: "holding (?P (taken p i)) (\<lambda>b. b = b0 \<or> ?P (taken p i) b) ((tsys p)\<lparr>trk := t\<rparr>)"
    using assms(2) by (intro hold) (simp add: tail_inv_def Let_def)
  have h': "holding (?P (Suc (taken p i))) (\<lambda>b. b = b0 \<or> ?P (Suc (taken p i)) b) ((tsys p)\<lparr>trk := t\<rparr>)"
    by (rule holding_mono [OF h]) (auto intro: saved_after_Suc)
  show ?thesis
    using assms(2) receives(1,3,4) t off h h' by (cases "i = j") (simp_all add: tail_inv_def Let_def)
next
  case (publishes j b)
  show ?thesis
  proof (cases "i = j")
    case True
    with assms(2) publishes published_snoc [of "taken p i - 1" "ts ! i" N] show ?thesis
      by (auto simp: tail_inv_def Let_def)
  qed (use assms(2) publishes in \<open>simp add: tail_inv_def Let_def\<close>)
next
  case (others s)
  have "ts ! i \<in> set ts" using assms(3) by simp
  with others(3) have off: "file_offset (ts ! i) (trk s) = file_offset (ts ! i) (trk (tsys p))" by blast
  let ?P = "saved_after v (ts ! i) (taken p i)"
  from assms(2) have h: "holding ?P (\<lambda>b. b = b0 \<or> ?P b) (tsys p)" and some: "stored (tsys p) \<noteq> None"
    and o: "file_offset (ts ! i) (trk (tsys p)) = Some (offset_after v (ts ! i) (taken p i))"
    by (simp_all add: tail_inv_def Let_def)
  have "holding ?P (\<lambda>b. b = b0 \<or> ?P b) s"
    by (rule holding_step [OF others(2) h]) (use saved_after_now [OF o] some in auto)
  moreover have "stored s \<noteq> None"
    using gstep_stored [OF others(2) _ some] h by (simp add: holding_def)
  ultimately show ?thesis using assms(2) others(1) off by (simp add: tail_inv_def Let_def)
qed

lemma tail_inv_reachable:
  assumes "(tstep N ts)\<^sup>*\<^sup>* (launch t) p" and "i < length ts" and "apart ts"
    and "ready file_storage fs_healthy t" and "fs_stored (backend t) = Some b0"
    and "file_offset (ts ! i) t = Some v"
  shows "tail_inv N ts i v b0 p"
  using assms(1)
proof (induction rule: rtranclp_induct)
  case base
  then show ?case using tail_inv_launch assms(4-6) by blast
next
  case (step y z)
  then show ?case using tail_inv_step assms(2,3) by blast
qed

section \<open>After a crash\<close>

lemma restart_on_saved:
  assumes "fs_works s" and "fs_stored s = Some (Gob c)"
  shows "LoadTailers (NewTracker file_storage (rebooted s) dbg) =
    Inr ((NewTracker file_storage (rebooted s) dbg)\<lparr>Cached := c\<rparr>)"
  using FileStorage_Load_stored [of "rebooted s" "Gob c" "\<lparr>Instances = Map.empty\<rparr>"] assms
  by (simp add: LoadTailers_def NewTracker_def)

text \<open>
  The process that starts on what is left either resumes a file at an offset, or does not know the
  file: then \<open>tailFile\<close> begins near its end, as for a new one.
\<close>

definition resumes :: "FileStorage \<Rightarrow> tailer \<Rightarrow> int64 \<Rightarrow> bool" where
  "resumes s T off \<longleftrightarrow>
     (\<forall>F c open_tail dbg. (\<forall>loc. open_tail (t_file T) loc = None) \<longrightarrow>
       (\<exists>u. LoadTailers (NewTracker file_storage (rebooted s) dbg) = Inr u \<and>
          tailFile F c open_tail (t_inst T) (t_name T) (t_file T) u = Inr (Tailing (off, SEEK_SET), [], u)))"

definition forgets :: "FileStorage \<Rightarrow> tailer \<Rightarrow> bool" where
  "forgets s T \<longleftrightarrow> (\<forall>u. loads (rebooted s) u \<longrightarrow> file_offset T u = None)"

lemma resumes_saved:
  assumes "fs_works s" and "fs_stored s = Some b" and "saved_offset T b = Some off"
    and "getShortDockerId (t_inst T) = Inr (t_key T)"
  shows "resumes s T off"
  unfolding resumes_def
proof (intro allI impI)
  from assms(3) obtain c where c: "b = Gob c" by (cases b) (auto simp: saved_offset_def instances_in_def)
  fix F c' dbg and open_tail :: "string \<Rightarrow> int64 \<times> int \<Rightarrow> err"
  assume o: "\<forall>loc. open_tail (t_file T) loc = None"
  let ?u = "(NewTracker file_storage (rebooted s) dbg)\<lparr>Cached := c\<rparr>"
  have "LoadTailers (NewTracker file_storage (rebooted s) dbg) = Inr ?u"
    using restart_on_saved assms(1,2) c by simp
  moreover have "tailFile F c' open_tail (t_inst T) (t_name T) (t_file T) ?u = Inr (Tailing (off, SEEK_SET), [], ?u)"
    using o assms(3) c by (intro tailFile_known [OF assms(4)])
      (simp_all add: NewTracker_def offset_of_def saved_offset_def instances_in_def)
  ultimately show "\<exists>u. LoadTailers (NewTracker file_storage (rebooted s) dbg) = Inr u \<and>
      tailFile F c' open_tail (t_inst T) (t_name T) (t_file T) u = Inr (Tailing (off, SEEK_SET), [], u)"
    by blast
qed

lemma forgets_saved:
  assumes "fs_works s" and "fs_stored s = Some b" and "saved_offset T b = None"
  shows "forgets s T"
  unfolding forgets_def
proof (intro allI impI)
  fix u
  assume "loads (rebooted s) u"
  from loads_rebooted [OF assms(1) this] assms(2,3) show "file_offset T u = None"
    by (simp add: file_offset_def offset_of_def saved_offset_def)
qed

section \<open>Where Tell points\<close>

text \<open>
  The tail library documents that \<open>Tell\<close> may be one line further than what was received, as it has
  read that line already, and that it splits a long line into several records.  \<open>line_no j\<close> is the
  line of the file the \<open>j\<close>-th record comes from, \<open>pos e\<close> where the first \<open>e\<close> lines end.
\<close>

definition tells_near :: "(nat \<Rightarrow> int64) \<Rightarrow> (nat \<Rightarrow> nat) \<Rightarrow> (nat \<Rightarrow> int64 \<times> err) \<Rightarrow> nat \<Rightarrow> bool" where
  "tells_near pos line_no tell n \<longleftrightarrow>
     (\<forall>j < n. tell (Suc j) \<in> {(pos (line_no j + 1), None), (pos (line_no j + 2), None)})"

definition in_file_order :: "(nat \<Rightarrow> nat) \<Rightarrow> nat \<Rightarrow> bool" where
  "in_file_order line_no n \<longleftrightarrow> (\<forall>i j. i \<le> j \<longrightarrow> j < n \<longrightarrow> line_no i \<le> line_no j)"

lemma offset_after_pos:
  assumes "tells_near pos line_no (t_tell T) (length (t_recs T))" and "m \<le> length (t_recs T)"
  shows "offset_after (pos 0) T m = pos (if m = 0 then 0 else line_no (m - 1) + 1) \<or>
    m \<noteq> 0 \<and> offset_after (pos 0) T m = pos (line_no (m - 1) + 2)"
proof (cases m)
  case (Suc j)
  with assms have "t_tell T (Suc j) \<in> {(pos (line_no j + 1), None), (pos (line_no j + 2), None)}"
    unfolding tells_near_def by (simp add: Suc_le_eq)
  with Suc assms(2) show ?thesis by (auto simp: offset_after_def t_lines_def Suc_le_eq)
qed (simp add: offset_after_def)

text \<open>A resumed position passes over records of two lines that were not published, at most.\<close>

lemma skipped_lines:
  assumes "tells_near pos line_no (t_tell T) (length (t_recs T))" and "in_file_order line_no (length (t_recs T))"
    and "m \<le> Suc n" and "m \<le> length (t_recs T)"
  shows "\<exists>e. offset_after (pos 0) T m = pos e \<and>
    (\<forall>j < length (t_recs T). n \<le> j \<longrightarrow> line_no j < e \<longrightarrow> line_no j \<in> {line_no n, line_no n + 1})"
proof -
  define e where "e = (if offset_after (pos 0) T m = pos (if m = 0 then 0 else line_no (m - 1) + 1)
    then (if m = 0 then 0 else line_no (m - 1) + 1) else line_no (m - 1) + 2)"
  have "line_no j \<in> {line_no n, line_no n + 1}" if j: "j < length (t_recs T)" "n \<le> j" "line_no j < e" for j
  proof -
    have m0: "m \<noteq> 0" using j(3) offset_after_pos [OF assms(1,4)] by (auto simp: e_def split: if_splits)
    with j(3) have "line_no j < line_no (m - 1) + 2" by (auto simp: e_def split: if_splits)
    moreover have "line_no n \<le> line_no j" using assms(2) j by (simp add: in_file_order_def)
    moreover have "line_no (m - 1) \<le> line_no n"
      using assms(2,3) j m0 by (auto simp: in_file_order_def)
    ultimately show ?thesis by auto
  qed
  moreover have "offset_after (pos 0) T m = pos e"
    using offset_after_pos [OF assms(1,4)] by (auto simp: e_def)
  ultimately show ?thesis by blast
qed

section \<open>Properties\<close>


text \<open>The sequential \<open>readFromTail\<close> is the run in which one tailer takes all its steps.\<close>

definition after_lines :: "node \<Rightarrow> tailer \<Rightarrow> FileStorage tracker \<Rightarrow> nat \<Rightarrow> process" where
  "after_lines N T t n =
     (launch (updates (t_key T) (t_file T) (take n (t_lines T)) t))
       \<lparr>taken := (\<lambda>_. 0)(0 := n), pubs := (\<lambda>_. [])(0 := published N T n)\<rparr>"

lemma one_line_is_a_run:
  assumes "getShortDockerId (t_inst T) = Inr (t_key T)" and "n < length (t_lines T)"
  shows "(tstep N [T])\<^sup>*\<^sup>* (after_lines N T t n) (after_lines N T t (Suc n))"
proof -
  let ?t = "\<lambda>n. updates (t_key T) (t_file T) (take n (t_lines T)) t"
  let ?p = "after_lines N T t n"
  have t: "line_received (t_inst T) (t_file T) (t_lines T ! n) (?t n) = Inr (?t (Suc n))"
    using assms by (simp add: line_received_def take_Suc_conv_app_nth updates_def case_prod_unfold)
  obtain q where q: "q = ?p\<lparr>tsys := (tsys ?p)\<lparr>trk := ?t (Suc n)\<rparr>, taken := (taken ?p)(0 := Suc n),
      sending := (sending ?p)(0 := True)\<rparr>"
    by simp
  have "tstep N [T] ?p q"
    unfolding q using receives [of 0 "[T]" ?p "?t (Suc n)" N] t assms(2)
    by (simp add: after_lines_def launch_def start_def)
  moreover have "tstep N [T] q (q\<lparr>sending := (sending q)(0 := False), pubs := (pubs q)(0 := published N T (Suc n))\<rparr>)"
    using published_snoc [OF assms(2), of N]
    by (intro publishes) (simp_all add: q after_lines_def launch_def)
  moreover have "q\<lparr>sending := (sending q)(0 := False), pubs := (pubs q)(0 := published N T (Suc n))\<rparr> =
      after_lines N T t (Suc n)"
    by (simp add: q after_lines_def launch_def start_def fun_eq_iff)
  ultimately show ?thesis by (metis r_into_rtranclp rtranclp.rtrancl_into_rtrancl)
qed

lemma readFromTail_is_a_run:
  assumes "getShortDockerId (t_inst T) = Inr (t_key T)"
    and "readFromTail N (t_inst T) (t_name T) (t_file T) (line_events (t_lines T)) t [] = Inr (r, t', pub')"
  shows "\<exists>p. (tstep N [T])\<^sup>*\<^sup>* (launch t) p \<and> trk (tsys p) = t' \<and> pubs p 0 = pub'"
proof -
  have "n \<le> length (t_lines T) \<Longrightarrow> (tstep N [T])\<^sup>*\<^sup>* (launch t) (after_lines N T t n)" for n
  proof (induction n)
    case 0
    have "after_lines N T t 0 = launch t"
      by (simp add: after_lines_def launch_def updates_def published_def fun_eq_iff)
    then show ?case by simp
  next
    case (Suc n)
    with one_line_is_a_run [OF assms(1), of n N t] show ?case by (simp add: rtranclp_trans)
  qed
  then have "(tstep N [T])\<^sup>*\<^sup>* (launch t) (after_lines N T t (length (t_lines T)))" by simp
  moreover have "t' = updates (t_key T) (t_file T) (t_lines T) t" "pub' = published N T (length (t_lines T))"
    using assms(2) readFromTail_lines [OF assms(1), of N "t_name T" "t_file T" "t_lines T" "[]" t "[]"]
    by (simp_all add: published_def)
  ultimately show ?thesis
    by (intro exI [of _ "after_lines N T t (length (t_lines T))"])
      (simp add: after_lines_def launch_def start_def)
qed

text \<open>A whole commit by one goroutine, while the tailers do nothing.\<close>

definition committed :: "process \<Rightarrow> process" where
  "committed p = p\<lparr>tsys := (tsys p)\<lparr>trk := (trk (tsys p))
     \<lparr>backend := fs_put (Gob (Cached (trk (tsys p)))) (backend (trk (tsys p)))\<rparr>\<rparr>\<rparr>"

lemma others_run:
  "(still_step (\<lambda>_. True))\<^sup>*\<^sup>* s s' \<Longrightarrow> tsys p = s \<Longrightarrow> (tstep N ts)\<^sup>*\<^sup>* p (p\<lparr>tsys := s'\<rparr>)"
proof (induction rule: rtranclp_induct)
  case (step y z)
  then have "tstep N ts (p\<lparr>tsys := y\<rparr>) ((p\<lparr>tsys := y\<rparr>)\<lparr>tsys := z\<rparr>)"
    by (intro others) (auto simp: still_step_def file_offset_def offset_of_def)
  with step show ?case by (simp add: rtranclp.rtrancl_into_rtrancl)
qed auto

lemma commit_is_a_run:
  assumes "ready file_storage fs_healthy (trk (tsys p))" and "pcs (tsys p) g = None"
  shows "(tstep N ts)\<^sup>*\<^sup>* p (committed p)"
proof -
  let ?b = "Gob (Cached (trk (tsys p)))"
  let ?s = "(tsys p)\<lparr>pcs := (pcs (tsys p))(g := Some (Locking ?b))\<rparr>"
  have "(still_step (\<lambda>_. True))\<^sup>*\<^sup>* (tsys p) ?s"
    using assms by (intro begin_encode) (simp_all add: healthy_works)
  also have "(still_step (\<lambda>_. True))\<^sup>*\<^sup>* ?s (put g (fs_put ?b (backend (trk ?s))) None ?s)"
    using assms(1) by (intro finish_write) simp_all
  also (rtranclp_trans) have "put g (fs_put ?b (backend (trk ?s))) None ?s = tsys (committed p)"
    using assms(2) by (simp add: put_def committed_def fun_upd_idem)
  finally have "(tstep N ts)\<^sup>*\<^sup>* p (p\<lparr>tsys := tsys (committed p)\<rparr>)" by (rule others_run) simp
  then show ?thesis by (simp add: committed_def)
qed

definition demo_tailer :: tailer where
  "demo_tailer = \<lparr>t_inst = demo_instance, t_name = ''a'', t_file = ''/c1/x'',
     t_recs = [demo_line ''one'', demo_line ''two''], t_tell = (\<lambda>n. (if n = 1 then 11 else 15, None))\<rparr>"

definition demo_saved :: "FileStorage tracker" where
  "demo_saved = demo_known\<lparr>backend := fs_put (Gob (Cached demo_known)) (backend demo_known)\<rparr>"

lemma demo_tailer_simps [simp]: "t_file demo_tailer = ''/c1/x''" "t_name demo_tailer = ''a''"
  "t_recs demo_tailer = [demo_line ''one'', demo_line ''two'']"
  "t_tell demo_tailer = (\<lambda>n. (if n = 1 then 11 else 15, None))"
  "t_lines demo_tailer = [(demo_line ''one'', 11, None), (demo_line ''two'', 15, None)]"
  by (simp_all add: demo_tailer_def t_lines_def from_tail_def)

lemma demo_tailer_key [simp]: "t_key demo_tailer = ''0123456789ab''"
  "getShortDockerId (t_inst demo_tailer) = Inr ''0123456789ab''"
  using getShortDockerId_eq [of demo_instance] by (auto simp: t_key_def demo_tailer_def split: if_splits)

lemma demo_saved_simps [simp]:
  "ready file_storage fs_healthy demo_saved"
  "fs_stored (backend demo_saved) = Some (Gob (Cached demo_known))"
  "file_offset demo_tailer demo_saved = Some 7"
  using demo_known_simps
  by (simp_all add: demo_saved_def ready_def file_offset_def offset_of_def)

text \<open>In the file of the witness the lines begin at 7, 11, 15 and 19; \<open>Tell\<close> is never ahead.\<close>

definition demo_pos :: "nat \<Rightarrow> int64" where
  "demo_pos e = 7 + 4 * of_nat e"


text \<open>
  C38. A line can be lost: the offset is stored before the line is published, so for any file with a
  line to come there is a run in which a commit falls between the two; after a crash at that moment
  the line has not been published, and the new process resumes behind it.
\<close>

theorem a_line_can_be_lost:
  assumes "ready file_storage fs_healthy t" and "file_offset T t = Some v" and "t_lines T \<noteq> []"
    and "getShortDockerId (t_inst T) = Inr (t_key T)"
  shows "\<exists>p. (tstep N [T])\<^sup>*\<^sup>* (launch t) p \<and> pubs p 0 = [] \<and>
    resumes (backend (trk (tsys p))) T (fst (snd (hd (t_lines T))))"
proof -
  let ?off = "fst (snd (t_lines T ! 0))"
  let ?t = "Update (t_key T) (t_file T) ?off t"
  obtain q where q: "q = (launch t)\<lparr>tsys := (tsys (launch t))\<lparr>trk := ?t\<rparr>, taken := (taken (launch t))(0 := Suc (taken (launch t) 0)),
      sending := (sending (launch t))(0 := True)\<rparr>"
    by simp
  have "tstep N [T] (launch t) q"
    unfolding q using assms(3,4)
    by (intro receives) (simp_all add: launch_def start_def line_received_def)
  moreover have "(tstep N [T])\<^sup>*\<^sup>* q (committed q)"
    using assms(1) by (intro commit_is_a_run [where g = 0]) (simp_all add: q launch_def start_def)
  ultimately have run: "(tstep N [T])\<^sup>*\<^sup>* (launch t) (committed q)"
    by (rule converse_rtranclp_into_rtranclp)
  have o: "file_offset T ?t = Some (offset_after v T 1)"
    using assms(2) by (simp add: file_offset_def offset_of_Update offset_after_def)
  have b: "backend (trk (tsys (committed q))) = fs_put (Gob (Cached ?t)) (backend t)"
    by (simp add: committed_def q launch_def start_def)
  have h: "fs_healthy (backend t)" using assms(1) by (simp add: ready_def)
  have "resumes (fs_put (Gob (Cached ?t)) (backend t)) T ?off"
  proof (rule resumes_saved [OF _ _ _ assms(4)])
    show "saved_offset T (Gob (Cached ?t)) = Some ?off"
      using o saved_offset_Gob [of T ?t] by (simp add: offset_after_def)
  qed (use h in \<open>simp_all add: fs_healthy_works\<close>)
  with run b assms(3) show ?thesis
    by (intro exI [of _ "committed q"]) (simp add: hd_conv_nth committed_def q launch_def)
qed

theorem a_line_can_be_lost_witness:
  "\<exists>p. (tstep demo_node [demo_tailer])\<^sup>*\<^sup>* (launch demo_saved) p \<and> pubs p 0 = [] \<and>
     resumes (backend (trk (tsys p))) demo_tailer 11"
  using a_line_can_be_lost [of demo_saved demo_tailer 7 demo_node] by simp

end
