(* ===== verification/Offset_Book.thy ===== *)
theory Offset_Book
  imports Tracker
begin

text \<open>
  What the tracker promises its clients, as an abstract machine: a book of offsets and the copy of it
  that survives the process.  The tracker with its mutex, its encodings and its storage refines the
  book, call by call and across restarts.
\<close>

section \<open>The book\<close>

record book =
  now :: "string \<rightharpoonup> tail_node"
  on_disk :: "string \<rightharpoonup> tail_node"

definition book_offset :: "book \<Rightarrow> string \<Rightarrow> string \<Rightarrow> int64 option" where
  "book_offset b k f = Option.bind (now b k) (\<lambda>node. node f)"

definition book_put :: "string \<Rightarrow> string \<Rightarrow> int64 \<Rightarrow> book \<Rightarrow> book" where
  "book_put k f v b = b\<lparr>now := (now b)(k := map_option (\<lambda>node. node(f \<mapsto> v)) (now b k))\<rparr>"

text \<open>
  One call: registering opens a page, initialising adds a line that is not there, an update changes a
  line that is there, removing tears the page out for good, cleaning up keeps the given pages, a
  commit copies the book, loading adds the copy to it; the rest only looks.
\<close>

fun book_call :: "call \<Rightarrow> book \<Rightarrow> book" where
  "book_call (CallRegisterInstance k) b =
     (if now b k = None then b\<lparr>now := (now b)(k \<mapsto> Map.empty)\<rparr> else b)"
| "book_call (CallInitializeChildNode k f v) b = (if book_offset b k f = None then book_put k f v b else b)"
| "book_call (CallUpdate k f v) b = (if book_offset b k f = None then b else book_put k f v b)"
| "book_call (CallRemove k) b = \<lparr>now = (now b)(k := None), on_disk = (now b)(k := None)\<rparr>"
| "book_call (CallCleanUp ids) b = b\<lparr>now := now b |` dom ids\<rparr>"
| "book_call CallCommit b = b\<lparr>on_disk := now b\<rparr>"
| "book_call CallLoadTailers b = b\<lparr>now := now b ++ on_disk b\<rparr>"
| "book_call (CallIsInstanceRegistered k) b = b"
| "book_call (CallIsChildNodeInitialized k f) b = b"
| "book_call (CallGetFileCachedOffset k f) b = b"

text \<open>A process may end and the next one begin with what was copied.\<close>

datatype deed = Call call | Restart

fun book_deed :: "deed \<Rightarrow> book \<Rightarrow> book" where
  "book_deed (Call c) b = book_call c b"
| "book_deed Restart b = b\<lparr>now := on_disk b\<rparr>"

inductive life :: "'s tracker \<Rightarrow> deed list \<Rightarrow> 's tracker \<Rightarrow> bool" where
  life_end: "life t [] t"
| life_call: "api t c (Inr t') \<Longrightarrow> life t' ds t'' \<Longrightarrow> life t (Call c # ds) t''"
| life_restart: "LoadTailers (NewTracker (storage t) (backend t) dbg) = Inr t' \<Longrightarrow>
    life t' ds t'' \<Longrightarrow> life t (Restart # ds) t''"

inductive_cases life_NilE [elim!]: "life t [] t'"
inductive_cases life_ConsE: "life t (d # ds) t'"

section \<open>Storage that keeps a book\<close>

text \<open>\<open>saved\<close> is what a process that starts on the storage will load.\<close>

locale book_storage = durable_storage S free healthy
  for S :: "'s Storage" and free healthy +
  fixes saved :: "'s \<Rightarrow> (string \<rightharpoonup> tail_node)"
  assumes Encode_saved: "healthy s \<Longrightarrow> Encode S t s = Inr ((None, b), s1) \<Longrightarrow> saved s1 = saved s"
    and Write_saved: "healthy s \<Longrightarrow> Encode S t s = Inr ((None, b), s1) \<Longrightarrow> Write S b s1 = Inr (None, s2) \<Longrightarrow>
      saved s2 = Instances t"
    and Load_saved: "healthy s \<Longrightarrow> \<exists>err s'.
      Load S e s = Inr ((err, e\<lparr>Instances := Instances e ++ saved s\<rparr>), s') \<and> healthy s' \<and> saved s' = saved s"

definition book_of :: "('s \<Rightarrow> (string \<rightharpoonup> tail_node)) \<Rightarrow> 's tracker \<Rightarrow> book" where
  "book_of saved t = \<lparr>now = insts t, on_disk = saved (backend t)\<rparr>"

lemma book_of_simps [simp]:
  "now (book_of saved t) = insts t" "on_disk (book_of saved t) = saved (backend t)"
  "book_offset (book_of saved t) k f = offset_of t k f"
  by (auto simp: book_of_def book_offset_def offset_of_def split: option.split)

lemma book_of_set_insts [simp]: "book_of saved (set_insts m t) = (book_of saved t)\<lparr>now := m\<rparr>"
  by (simp add: book_of_def)

lemma book_put_known:
  "now b k = Some node \<Longrightarrow> book_put k f v b = b\<lparr>now := (now b)(k \<mapsto> node(f \<mapsto> v))\<rparr>"
  by (simp add: book_put_def)

lemma book_put_unknown: "now b k = None \<Longrightarrow> book_put k f v b = b"
  by (simp add: book_put_def fun_upd_idem)

context book_storage
begin

lemma Commit_book:
  assumes "ready S healthy t" and "Commit t = Inr (e, t')"
  shows "e = None \<and> ready S healthy t' \<and> book_of saved t' = (book_of saved t)\<lparr>on_disk := insts t\<rparr>"
proof -
  from assms(1) have h: "healthy (backend t)" "\<not> mux t" "storage t = S" by (simp_all add: ready_def)
  from Encode_healthy [OF h(1)] obtain b s1
    where enc: "Encode S (Cached t) (backend t) = Inr ((None, b), s1)" and s1: "healthy s1" by blast
  from Write_healthy [OF s1] obtain s2 where wr: "Write S b s1 = Inr (None, s2)" "healthy s2" by blast
  from assms(2) h enc wr Write_saved [OF h(1) enc wr(1)] show ?thesis
    by (auto simp: Commit_def getBuffer_def ready_def book_of_def)
qed

lemma LoadTailers_book:
  assumes "ready S healthy t" and "LoadTailers t = Inr t'"
  shows "ready S healthy t' \<and> book_of saved t' = book_call CallLoadTailers (book_of saved t)"
proof -
  from assms(1) have h: "healthy (backend t)" "\<not> mux t" "storage t = S" by (simp_all add: ready_def)
  from Load_saved [OF h(1), of "Cached t"] assms(2) h show ?thesis
    by (auto simp: LoadTailers_def ready_def book_of_def)
qed

lemma Remove_book:
  assumes "ready S healthy t" and "Remove k t = Inr t'"
  shows "ready S healthy t' \<and> book_of saved t' = book_call (CallRemove k) (book_of saved t)"
proof -
  let ?t = "set_insts ((insts t)(k := None)) t"
  have r: "ready S healthy ?t" using assms(1) by simp
  from assms obtain e where c: "Commit ?t = Inr (e, t')"
    by (auto simp: Remove_def ready_unlocked go_bind_eq_Inr split: option.splits)
  from Commit_book [OF r c] show ?thesis by simp
qed

lemma api_book:
  assumes "api t c (Inr t')" and "ready S healthy t"
  shows "ready S healthy t' \<and> book_of saved t' = book_call c (book_of saved t)"
  using assms(1)
proof cases
  case (Update k f v)
  with assms(2) show ?thesis
    by (cases "insts t k") (auto simp: Tracker.Update_def offset_of_def book_put_known domIff)
next
  case (InitializeChildNode k f v)
  with assms(2) show ?thesis
    by (cases "insts t k")
      (auto simp: InitializeChildNode_eq ready_unlocked offset_of_def book_put_known book_put_unknown
        split: if_splits)
next
  case (CleanUp perm ks ids)
  with assms(2) show ?thesis by (simp add: CleanUp_eq ready_unlocked)
next
  case (RegisterInstance k)
  with assms(2) show ?thesis by (auto simp: RegisterInstance_eq ready_unlocked split: if_splits)
next
  case (GetFileCachedOffset k f)
  with assms(2) show ?thesis
    by (auto simp: GetFileCachedOffset_eq ready_unlocked dest!: sym [of "Inr t'"]
        split: if_splits option.splits)
next
  case (Remove k)
  with assms(2) Remove_book show ?thesis by metis
next
  case LoadTailers
  with assms(2) LoadTailers_book show ?thesis by metis
next
  case Commit
  with assms(2) Commit_book show ?thesis by (auto simp: left_eq_Inr dest!: sym [of "Inr t'"])
qed (use assms(2) in \<open>simp_all add: op_simps ready_unlocked\<close>)

lemma restart_book:
  assumes "ready S healthy t" and "LoadTailers (NewTracker (storage t) (backend t) dbg) = Inr t'"
  shows "ready S healthy t' \<and> book_of saved t' = book_deed Restart (book_of saved t)"
proof -
  have "ready S healthy (NewTracker (storage t) (backend t) dbg)"
    using assms(1) by (simp add: ready_def NewTracker_def)
  from LoadTailers_book [OF this assms(2)] show ?thesis by (simp add: book_of_def NewTracker_def)
qed

lemma life_book:
  "life t ds t' \<Longrightarrow> ready S healthy t \<Longrightarrow>
   ready S healthy t' \<and> book_of saved t' = fold book_deed ds (book_of saved t)"
proof (induction rule: life.induct)
  case (life_call t c t' ds t'')
  with api_book [OF life_call.hyps(1)] show ?case by simp
next
  case (life_restart t dbg t' ds t'')
  with restart_book [OF life_restart.prems life_restart.hyps(1)] show ?case by simp
qed simp

end

section \<open>The file keeps a book\<close>

definition fs_saved :: "FileStorage \<Rightarrow> (string \<rightharpoonup> tail_node)" where
  "fs_saved s = (case fs_stored s of Some (Gob c) \<Rightarrow> Instances c | _ \<Rightarrow> Map.empty)"

lemma gob_decode_saved:
  "fs_stored s = Some b \<Longrightarrow> snd (gob_decode b e) = e\<lparr>Instances := Instances e ++ fs_saved s\<rparr>"
  by (cases b) (simp_all add: fs_saved_def)

interpretation fsb: book_storage file_storage fs_free fs_healthy fs_saved
proof (unfold_locales, goal_cases)
  case (3 s e)
  show ?case
  proof (cases "fs_stored s")
    case None
    with FileStorage_Load_absent [OF 3 None, of e] show ?thesis by (auto simp: fs_saved_def)
  next
    case (Some b)
    with 3 FileStorage_Load_stored [OF 3 Some, of e] gob_decode_saved [OF Some, of e] show ?thesis
      by simp
  qed
qed (auto simp: FileStorage_Encode_def FileStorage_Write_healthy fs_saved_def)

section \<open>Properties\<close>

text \<open>
  C2. The tracker refines the book: whatever calls are made on a working disk, with restarts of the
  process anywhere between them, the tracker stands for the book those deeds lead to, it can be
  called again, and what it answers about containers, files and offsets is what the book says.
\<close>

theorem tracker_refines_book:
  assumes "life t ds t'" and "ready file_storage fs_healthy t"
  shows "let b = fold book_deed ds (book_of fs_saved t) in
    book_of fs_saved t' = b \<and> ready file_storage fs_healthy t' \<and>
    IsInstanceRegistered k t' = Inr (now b k \<noteq> None, t') \<and>
    IsChildNodeInitialized k f t' = Inr (book_offset b k f \<noteq> None, t') \<and>
    (book_offset b k f = Some v \<longrightarrow> GetFileCachedOffset k f t' = Inr (v, t'))"
proof -
  let ?b = "fold book_deed ds (book_of fs_saved t)"
  from fsb.life_book [OF assms(1,2)] have r: "ready file_storage fs_healthy t'" "book_of fs_saved t' = ?b"
    by simp_all
  have o: "book_offset ?b k f = offset_of t' k f" "now ?b k = insts t' k" for k f
    by (simp_all flip: r(2))
  have "offset_of t' k f = Some v \<Longrightarrow> insts t' k \<noteq> None"
    by (auto simp: offset_of_def split: option.splits)
  with r o ready_unlocked [OF r(1)] show ?thesis
    by (auto simp: Let_def IsInstanceRegistered_eq IsChildNodeInitialized_eq GetFileCachedOffset_eq)
qed

theorem tracker_refines_book_witness:
  "\<exists>t'. life demo_tracker [Call (CallRegisterInstance ''c9''), Call (CallInitializeChildNode ''c9'' ''f'' 0),
       Call (CallUpdate ''c9'' ''f'' 42), Call CallCommit, Call (CallUpdate ''c9'' ''f'' 50), Restart] t' \<and>
     GetFileCachedOffset ''c9'' ''f'' t' = Inr (42, t')"
proof -
  let ?ds = "[Call (CallRegisterInstance ''c9''), Call (CallInitializeChildNode ''c9'' ''f'' 0),
       Call (CallUpdate ''c9'' ''f'' 42), Call CallCommit, Call (CallUpdate ''c9'' ''f'' 50), Restart]"
  have r0: "ready file_storage fs_healthy demo_tracker" by (simp add: ready_def)
  obtain t1 where t1: "api demo_tracker (CallRegisterInstance ''c9'') (Inr t1)"
    using api.RegisterInstance [of demo_tracker "''c9''"] by (simp add: RegisterInstance_eq)
  note r1 = fsb.api_book [OF t1 r0, THEN conjunct1]
  obtain t2 where t2: "api t1 (CallInitializeChildNode ''c9'' ''f'' 0) (Inr t2)"
    using api.InitializeChildNode [of t1 "''c9''" "''f''" 0] ready_unlocked [OF r1]
    by (simp add: InitializeChildNode_eq)
  note r2 = fsb.api_book [OF t2 r1, THEN conjunct1]
  note t3 = api.Update [of t2 "''c9''" "''f''" 42]
  note r3 = fsb.api_book [OF t3 r2, THEN conjunct1]
  obtain t4 where t4: "api (Update ''c9'' ''f'' 42 t2) CallCommit (Inr t4)"
    using api.Commit [of "Update ''c9'' ''f'' 42 t2"] fsd.Commit_durable [OF r3] by auto
  note r4 = fsb.api_book [OF t4 r3, THEN conjunct1]
  note t5 = api.Update [of t4 "''c9''" "''f''" 50]
  note r5 = fsb.api_book [OF t5 r4, THEN conjunct1]
  let ?t5 = "Update ''c9'' ''f'' 50 t4"
  from r5 have "storage ?t5 = file_storage" "fs_healthy (backend ?t5)" by (simp_all add: ready_def)
  then obtain t6 where t6: "LoadTailers (NewTracker (storage ?t5) (backend ?t5) False) = Inr t6"
    using fsb.Load_saved [of "backend ?t5" "\<lparr>Instances = Map.empty\<rparr>"]
    by (auto simp: LoadTailers_def NewTracker_def)
  have l: "life demo_tracker ?ds t6"
    by (intro life_call [OF t1] life_call [OF t2] life_call [OF t3] life_call [OF t4] life_call [OF t5]
        life_restart [OF t6] life_end)
  have "book_offset (fold book_deed ?ds (book_of fs_saved demo_tracker)) ''c9'' ''f'' = Some 42"
    by (simp add: book_offset_def book_put_def)
  with tracker_refines_book [OF l r0, of "''c9''" "''f''" 42] l show ?thesis by (auto simp: Let_def)
qed

end
