(* ===== verification/Races.thy ===== *)
theory Races
  imports Tracker
begin

text \<open>
  Which accesses to shared maps and buffers the mutexes keep apart: the locking of
  \<open>apptail/storage/tail_tracker.go\<close>, \<open>apptail/docker/listener.go\<close>, \<open>apptail/cmd/apptail/main.go\<close> and
  \<open>apptail/util/seeker.go\<close>.  An operation is the set of its paths, a path the sequence of what it does
  to the mutex and to the data the mutex guards; the values are those of the other theories.
\<close>

section \<open>Goroutines and one mutex\<close>

datatype micro = Acquire | Release | Load_it | Store_it

record machine =
  holder :: "nat option"
  code :: "nat \<Rightarrow> micro list"

definition idle :: machine where
  "idle = \<lparr>holder = None, code = (\<lambda>_. [])\<rparr>"

text \<open>A goroutine that has finished a call may make another one.\<close>

inductive mstep :: "('o \<Rightarrow> micro list set) \<Rightarrow> machine \<Rightarrow> machine \<Rightarrow> bool" for paths where
  calls: "code m g = [] \<Longrightarrow> p \<in> paths op \<Longrightarrow> mstep paths m (m\<lparr>code := (code m)(g := p)\<rparr>)"
| locks: "code m g = Acquire # p \<Longrightarrow> holder m = None \<Longrightarrow>
    mstep paths m (m\<lparr>holder := Some g, code := (code m)(g := p)\<rparr>)"
| unlocks: "code m g = Release # p \<Longrightarrow> holder m \<noteq> None \<Longrightarrow>
    mstep paths m (m\<lparr>holder := None, code := (code m)(g := p)\<rparr>)"
| accesses: "code m g = a # p \<Longrightarrow> a \<in> {Load_it, Store_it} \<Longrightarrow>
    mstep paths m (m\<lparr>code := (code m)(g := p)\<rparr>)"

inductive_cases mstepE: "mstep paths m m'"

text \<open>Two goroutines are about to access the data, and one of them to change it.\<close>

definition race :: "machine \<Rightarrow> bool" where
  "race m \<longleftrightarrow> (\<exists>g h a b p q. g \<noteq> h \<and> code m g = a # p \<and> code m h = b # q \<and>
     a = Store_it \<and> b \<in> {Load_it, Store_it})"

text \<open>A path that locks, unlocks what it has locked, and accesses the data in between only.\<close>

fun well_locked :: "bool \<Rightarrow> micro list \<Rightarrow> bool" where
  "well_locked inside [] = (\<not> inside)"
| "well_locked inside (Acquire # p) = (\<not> inside \<and> well_locked True p)"
| "well_locked inside (Release # p) = (inside \<and> well_locked False p)"
| "well_locked inside (_ # p) = (inside \<and> well_locked True p)"

text \<open>The goroutine inside the critical section is the holder, and no other is.\<close>

definition locking :: "machine \<Rightarrow> bool" where
  "locking m \<longleftrightarrow> (\<forall>g. well_locked (holder m = Some g) (code m g))"

locale locked_operations =
  fixes paths :: "'o \<Rightarrow> micro list set"
  assumes locked: "p \<in> paths op \<Longrightarrow> well_locked False p"
begin

lemma locking_idle: "locking idle"
  by (simp add: locking_def idle_def)

lemma locking_step:
  assumes "mstep paths m m'" and "locking m"
  shows "locking m'"
  using assms(1)
proof cases
  case (calls g p op)
  with assms(2) have "holder m \<noteq> Some g" by (auto simp: locking_def dest!: spec [of _ g])
  with calls assms(2) locked show ?thesis by (auto simp: locking_def)
next
  case (locks g p)
  with assms(2) have "well_locked False (Acquire # p)" by (metis locking_def option.distinct(1))
  with locks assms(2) show ?thesis by (auto simp: locking_def)
next
  case (unlocks g p)
  with assms(2) have "well_locked (holder m = Some g) (Release # p)" by (metis locking_def)
  then have "holder m = Some g" "well_locked False p" by auto
  with unlocks assms(2) show ?thesis by (auto simp: locking_def) (metis (full_types))
next
  case (accesses g a p)
  with assms(2) have "well_locked (holder m = Some g) (a # p)" by (metis locking_def)
  with accesses(3) have "holder m = Some g" "well_locked True p" by auto
  with accesses assms(2) show ?thesis by (auto simp: locking_def) (metis (full_types))+
qed

lemma locking_reachable: "(mstep paths)\<^sup>*\<^sup>* idle m \<Longrightarrow> locking m"
  by (induction rule: rtranclp_induct) (auto intro: locking_idle locking_step)

lemma no_race: "(mstep paths)\<^sup>*\<^sup>* idle m \<Longrightarrow> \<not> race m"
proof
  assume "(mstep paths)\<^sup>*\<^sup>* idle m" and "race m"
  then obtain g h a b p q where "locking m" "g \<noteq> h" "code m g = a # p" "code m h = b # q"
    "a = Store_it" "b \<in> {Load_it, Store_it}"
    using locking_reachable by (auto simp: race_def)
  then have "well_locked (holder m = Some g) (Store_it # p)" "well_locked (holder m = Some h) (b # q)"
    by (metis locking_def)+
  with \<open>g \<noteq> h\<close> \<open>b \<in> _\<close> show False by auto
qed

end

section \<open>The tracker\<close>

text \<open>
  The accesses to the maps \<open>Instances\<close> and \<open>TailNode\<close>.  Every operation locks but \<open>Update\<close>; the offset
  itself is read and written atomically and is no access to a map.  Ranging over a map is one access.  \<open>dump\<close> is \<open>dumpState\<close>, which
  reads the maps when the tracker debugs.
\<close>

definition dumps :: "micro list set" where
  "dumps = {[], [Load_it]}"

fun tracker_paths :: "call \<Rightarrow> micro list set" where
  "tracker_paths (CallRegisterInstance k) =
     {[Acquire, Load_it, Release]} \<union> (\<lambda>d. [Acquire, Load_it, Store_it] @ d @ [Release]) ` dumps"
| "tracker_paths (CallIsInstanceRegistered k) = {[Acquire, Load_it, Release]}"
| "tracker_paths (CallIsChildNodeInitialized k f) =
     {[Acquire, Load_it, Release], [Acquire, Load_it, Load_it, Release]}"
| "tracker_paths (CallInitializeChildNode k f v) =
     {[Acquire, Load_it, Release], [Acquire, Load_it, Load_it, Release]} \<union>
     (\<lambda>d. [Acquire, Load_it, Load_it, Store_it, Store_it] @ d @ [Release]) ` dumps"
| "tracker_paths (CallGetFileCachedOffset k f) =
     {[Acquire, Load_it, Release], [Acquire, Load_it, Load_it, Release]}"
| "tracker_paths (CallUpdate k f v) = {[Load_it], [Load_it, Load_it], [Load_it, Load_it, Load_it]}"
| "tracker_paths (CallCleanUp ids) =
     {[Acquire, Load_it] @ replicate n Store_it @ d @ [Release] | n d. d \<in> dumps}"
| "tracker_paths (CallRemove k) = {[Acquire, Store_it, Release, Acquire, Load_it, Release]}"
| "tracker_paths CallLoadTailers = (\<lambda>d. [Acquire, Store_it] @ d @ [Release]) ` dumps"
| "tracker_paths CallCommit = {[Acquire, Load_it, Release]}"

definition locked_tracker_paths :: "call \<Rightarrow> micro list set" where
  "locked_tracker_paths c = (if \<exists>k f v. c = CallUpdate k f v then {} else tracker_paths c)"

lemma well_locked_stores: "well_locked True (replicate n Store_it @ p) = well_locked True p"
  by (induction n) auto

interpretation tr: locked_operations locked_tracker_paths
proof
  fix p c
  assume "p \<in> locked_tracker_paths c"
  then show "well_locked False p"
    by (cases c) (auto simp: locked_tracker_paths_def dumps_def well_locked_stores)
qed

section \<open>The listener, the started instances and the buffer\<close>

text \<open>\<open>BlockUntilContainerStops\<close> and one iteration of \<open>Listen\<close>, on the map \<open>waiters\<close>.\<close>

datatype listener_call = CallBlock | CallListen

fun listener_paths :: "listener_call \<Rightarrow> micro list set" where
  "listener_paths CallBlock =
     {[Acquire, Load_it, Load_it, Release], [Acquire, Load_it, Store_it, Load_it, Release]}"
| "listener_paths CallListen = {[], [Acquire, Load_it, Release], [Acquire, Load_it, Store_it, Release]}"

lemma listener_locked: "p \<in> listener_paths op \<Longrightarrow> well_locked False p"
  by (cases op) auto

interpretation listener: locked_operations listener_paths
  by unfold_locales (rule listener_locked)

text \<open>\<open>checkInstanceAndUpdate\<close> and \<open>delete\<close>, which also print the map.\<close>

datatype starter_call = CallCheckInstance | CallDelete

fun starter_paths :: "starter_call \<Rightarrow> micro list set" where
  "starter_paths CallCheckInstance =
     {[Acquire, Load_it, Release], [Acquire, Load_it, Store_it, Load_it, Release]}"
| "starter_paths CallDelete = {[Acquire, Store_it, Load_it, Release]}"

lemma starter_locked: "p \<in> starter_paths op \<Longrightarrow> well_locked False p"
  by (cases op) auto

interpretation starter: locked_operations starter_paths
  by unfold_locales (rule starter_locked)

text \<open>
  The buffer of the stream wrapper: \<open>Read\<close> takes from it under the lock, and may wait, which releases
  and takes the lock again; \<open>Drain\<close> writes to it and asks for its length without the lock, and locks
  only to announce; \<open>Seek\<close> never locks.
\<close>

datatype wrapper_call = CallRead nat | CallDrain | CallSeek

fun wrapper_paths :: "wrapper_call \<Rightarrow> micro list set" where
  "wrapper_paths (CallRead waits) =
     {[Acquire, Load_it] @ concat (replicate waits [Release, Acquire, Load_it]) @ [Store_it, Load_it, Release]}"
| "wrapper_paths CallDrain = {w @ l | w l. w \<in> {[], [Store_it]} \<and> l \<in> {[], [Load_it], [Load_it, Acquire, Release]}}"
| "wrapper_paths CallSeek = {[], [Store_it], [Load_it, Store_it]}"

section \<open>Properties\<close>

text \<open>
  C21. The mutexes do their work where they are used: whatever goroutines call the operations of the
  tracker other than \<open>Update\<close>, those of the listener or those of the started instances, however often
  and however interleaved, no map is changed by one while another accesses it.
\<close>

theorem locked_operations_do_not_race:
  "((mstep locked_tracker_paths)\<^sup>*\<^sup>* idle m \<longrightarrow> \<not> race m) \<and>
   ((mstep listener_paths)\<^sup>*\<^sup>* idle m \<longrightarrow> \<not> race m) \<and>
   ((mstep starter_paths)\<^sup>*\<^sup>* idle m \<longrightarrow> \<not> race m)"
  using tr.no_race listener.no_race starter.no_race by blast

theorem locked_operations_do_not_race_witness:
  "(mstep listener_paths)\<^sup>*\<^sup>* idle (idle\<lparr>code := (\<lambda>_. [])(0 := [Acquire, Load_it, Release])\<rparr>) \<and>
   \<not> race (idle\<lparr>code := (\<lambda>_. [])(0 := [Acquire, Load_it, Release])\<rparr>)"
proof -
  let ?m = "idle\<lparr>code := (\<lambda>_. [])(0 := [Acquire, Load_it, Release])\<rparr>"
  have "mstep listener_paths idle ?m"
    using calls [of idle 0 "[Acquire, Load_it, Release]" listener_paths CallListen] by (simp add: idle_def)
  then have "(mstep listener_paths)\<^sup>*\<^sup>* idle ?m" by (rule r_into_rtranclp)
  with locked_operations_do_not_race [of ?m] show ?thesis by blast
qed

text \<open>One goroutine locks and is about to write while another, without a lock, is about to access.\<close>

definition two :: "nat option \<Rightarrow> micro list \<Rightarrow> micro list \<Rightarrow> machine" where
  "two h p q = \<lparr>holder = h, code = (\<lambda>g. if g = 0 then p else if g = 1 then q else [])\<rparr>"

lemma two_simps [simp]:
  "holder (two h p q) = h" "code (two h p q) 0 = p" "code (two h p q) 1 = q"
  "(two h p q)\<lparr>code := (code (two h p q))(0 := p')\<rparr> = two h p' q"
  "(two h p q)\<lparr>code := (code (two h p q))(1 := q')\<rparr> = two h p q'"
  "(two h p q)\<lparr>holder := h', code := (code (two h p q))(0 := p')\<rparr> = two h' p' q"
  by (auto simp: two_def fun_eq_iff)

lemma unlocked_race:
  assumes "Acquire # Load_it # Store_it # p \<in> paths op" and "b # q \<in> paths op'" and "b \<in> {Load_it, Store_it}"
  shows "\<exists>m. (mstep paths)\<^sup>*\<^sup>* idle m \<and> race m"
proof -
  have "idle = two None [] []" by (simp add: idle_def two_def fun_eq_iff)
  moreover have "mstep paths (two None [] []) (two None (Acquire # Load_it # Store_it # p) [])"
    using calls [of "two None [] []" 0 "Acquire # Load_it # Store_it # p" paths op] assms(1)
    by (simp del: One_nat_def)
  moreover have "mstep paths (two None (Acquire # Load_it # Store_it # p) []) (two (Some 0) (Load_it # Store_it # p) [])"
    using locks [of "two None (Acquire # Load_it # Store_it # p) []" 0 "Load_it # Store_it # p" paths]
    by (simp del: One_nat_def)
  moreover have "mstep paths (two (Some 0) (Load_it # Store_it # p) []) (two (Some 0) (Store_it # p) [])"
    using accesses [of "two (Some 0) (Load_it # Store_it # p) []" 0 Load_it "Store_it # p" paths]
    by (simp del: One_nat_def)
  moreover have "mstep paths (two (Some 0) (Store_it # p) []) (two (Some 0) (Store_it # p) (b # q))"
    using calls [of "two (Some 0) (Store_it # p) []" 1 "b # q" paths op'] assms(2)
    by (simp del: One_nat_def)
  ultimately have "(mstep paths)\<^sup>*\<^sup>* idle (two (Some 0) (Store_it # p) (b # q))"
    by (metis converse_rtranclp_into_rtranclp rtranclp.rtrancl_refl)
  moreover have "race (two (Some 0) (Store_it # p) (b # q))"
    unfolding race_def using assms(3)
    by (intro exI [of _ "0 :: nat"] exI [of _ "1 :: nat"]) (auto simp del: One_nat_def)
  ultimately show ?thesis by blast
qed

text \<open>
  C39. Two accesses are not protected: \<open>Update\<close> looks up the maps of the tracker without the lock while
  \<open>RegisterInstance\<close> may be writing them, which the Go runtime answers with a fatal error, and
  \<open>Drain\<close> writes to the buffer of the stream while \<open>Read\<close> takes from it.
\<close>

theorem unlocked_accesses_race:
  "(\<exists>m. (mstep (\<lambda>c. if c \<in> {CallUpdate k f v, CallRegisterInstance j} then tracker_paths c else {}))\<^sup>*\<^sup>* idle m \<and> race m) \<and>
   (\<exists>m. (mstep (\<lambda>c. if c \<in> {CallDrain, CallRead 0} then wrapper_paths c else {}))\<^sup>*\<^sup>* idle m \<and> race m)"
proof
  show "\<exists>m. (mstep (\<lambda>c. if c \<in> {CallUpdate k f v, CallRegisterInstance j} then tracker_paths c else {}))\<^sup>*\<^sup>* idle m \<and> race m"
    by (rule unlocked_race [where op = "CallRegisterInstance j" and op' = "CallUpdate k f v" and p = "[Release]" and q = "[]"
          and b = Load_it]) (auto simp: dumps_def)
  show "\<exists>m. (mstep (\<lambda>c. if c \<in> {CallDrain, CallRead 0} then wrapper_paths c else {}))\<^sup>*\<^sup>* idle m \<and> race m"
    by (rule unlocked_race [where op = "CallRead 0" and op' = CallDrain and p = "[Load_it, Release]" and q = "[]"
          and b = Store_it]) auto
qed

end
