(* ===== verification/Apptail_Main.thy ===== *)
theory Apptail_Main
  imports Instance
begin

text \<open>
  The process around the tailers: \<open>apptail/cmd/apptail/main.go\<close> (start-up, the guard against starting
  an instance twice, the UID of the node), \<open>apptail/util/nodeid.go\<close> and \<open>brandname.go\<close>, the loading
  of \<open>apptail/config.go\<close>, and \<open>common/cleanup.go\<close>.
\<close>

section \<open>Leaving the process\<close>

datatype effect = Logged string | TailCleanup | OsExit int

definition cleanup :: "effect list" where
  "cleanup = [Logged ''cleanup: closing open inotify watches'', TailCleanup]"

definition Fatal :: "string \<Rightarrow> effect list" where
  "Fatal msg = [Logged msg] @ cleanup @ [OsExit 1]"

fun RegisterTailCleanup :: "string list \<Rightarrow> effect list" where
  "RegisterTailCleanup [] = []"
| "RegisterTailCleanup (sig # sigs) =
     [Logged (''captured signal '' @ sig @ ''; exiting after cleanup'')] @ cleanup @ [OsExit 1]"

section \<open>Configuration and node id\<close>

definition LoadConfig :: "string + Config \<Rightarrow> Config go" where
  "LoadConfig r = load_config ''Unable to load apptail config; '' r"

record brand_Config =
  Info_Name :: string

definition util_loadConfig :: "string + brand_Config \<Rightarrow> brand_Config go" where
  "util_loadConfig r = load_config ''Unable to load cc_ng config; '' r"

definition GetBrandName :: "brand_Config \<Rightarrow> string" where
  "GetBrandName c = Info_Name c"

text \<open>
  \<open>once.Do\<close>: \<open>nodeid\<close> is \<open>None\<close> before the first call; \<open>LocalIP i\<close> is what the \<open>i\<close>-th call of
  \<open>server.LocalIP\<close> returns, \<open>asked\<close> how many there were.
\<close>

record node_id =
  nodeid :: "string option"
  asked :: nat

definition LocalNodeId_call :: "(nat \<Rightarrow> string + string) \<Rightarrow> node_id \<Rightarrow> (string \<times> node_id) go" where
  "LocalNodeId_call LocalIP s =
     (case nodeid s of
        Some i \<Rightarrow> Inr (i, s)
      | None \<Rightarrow>
          (case LocalIP (asked s) of
             Inl e \<Rightarrow> Inl (Exit (''Failed to determine IP addr: '' @ e))
           | Inr i \<Rightarrow> Inr (i, s\<lparr>nodeid := Some i, asked := Suc (asked s)\<rparr>)))"

section \<open>The UID of the node\<close>

record uid_file =
  uid_content :: "string option"
  uid_stat_error :: err
  uid_read_error :: err
  uid_write_error :: err

definition getUID :: "string + string \<Rightarrow> uid_file \<Rightarrow> (string \<times> uid_file) go" where
  "getUID NewV4 f =
     (if uid_stat_error f = None \<and> uid_content f = None then
        (case NewV4 of
           Inl e \<Rightarrow> Inl (Exit e)
         | Inr uid \<Rightarrow>
             (case uid_write_error f of
                Some e \<Rightarrow> Inl (Exit e)
              | None \<Rightarrow> Inr (uid, f\<lparr>uid_content := Some uid\<rparr>)))
      else
        (case (uid_read_error f, uid_content f) of
           (Some e, _) \<Rightarrow> Inl (Exit e)
         | (None, None) \<Rightarrow> Inl (Exit ''no such file or directory'')
         | (None, Some data) \<Rightarrow> Inr (data, f)))"

section \<open>Starting an instance once\<close>

type_synonym StartedInstance = "string \<rightharpoonup> int64"

definition checkInstanceAndUpdate ::
    "int64 \<Rightarrow> string \<Rightarrow> StartedInstance \<Rightarrow> bool \<times> StartedInstance" where
  "checkInstanceAndUpdate n dockerId s =
     (if \<not> in_map dockerId s then (True, s(dockerId \<mapsto> n)) else (False, s))"

definition delete_started :: "string \<Rightarrow> StartedInstance \<Rightarrow> StartedInstance" where
  "delete_started dockerId s = s(dockerId := None)"

text \<open>
  The subscription and the goroutines it starts.  A goroutine first calls \<open>Tail\<close>, which only starts
  the tailers and returns, and then deletes its entry.  \<open>tailing\<close> are the containers of the calls of
  \<open>Tail\<close> whose tailers run: when a container exits, the listener releases one waiter, and the tailers
  of one call end.  \<open>exited\<close> lists the exits so far.
\<close>

record starter =
  n_msgs :: int64
  started :: StartedInstance
  before_Tail :: "string list"
  after_Tail :: "string list"
  tailing :: "string list"
  exited :: "string list"

definition no_instances :: starter where
  "no_instances = \<lparr>n_msgs = 0, started = Map.empty, before_Tail = [], after_Tail = [], tailing = [],
     exited = []\<rparr>"

definition newinstance :: "string \<Rightarrow> starter \<Rightarrow> starter" where
  "newinstance dockerId s =
     (let n = n_msgs s + 1;
          (go, st) = checkInstanceAndUpdate n dockerId (started s)
      in s\<lparr>n_msgs := n, started := st,
           before_Tail := (if go then before_Tail s @ [dockerId] else before_Tail s)\<rparr>)"

definition run_Tail :: "string \<Rightarrow> starter \<Rightarrow> starter" where
  "run_Tail i s = s\<lparr>before_Tail := remove1 i (before_Tail s), after_Tail := after_Tail s @ [i],
                    tailing := tailing s @ [i]\<rparr>"

definition run_delete :: "string \<Rightarrow> starter \<Rightarrow> starter" where
  "run_delete i s = s\<lparr>after_Tail := remove1 i (after_Tail s), started := delete_started i (started s)\<rparr>"

definition run_exit :: "string \<Rightarrow> starter \<Rightarrow> starter" where
  "run_exit i s = s\<lparr>tailing := remove1 i (tailing s), exited := exited s @ [i]\<rparr>"

inductive starts :: "starter \<Rightarrow> starter \<Rightarrow> bool" where
  message: "starts s (newinstance i s)"
| tails: "i \<in> set (before_Tail s) \<Longrightarrow> starts s (run_Tail i s)"
| deletes: "i \<in> set (after_Tail s) \<Longrightarrow> starts s (run_delete i s)"
| exits: "starts s (run_exit i s)"

inductive_cases startsE: "starts s s'"

section \<open>Start-up\<close>

definition ticker_interval :: "Config \<Rightarrow> int64" where
  "ticker_interval c = PersistPositionIntervalSeconds c * 1000000000"

text \<open>\<open>time.NewTicker\<close> panics on an interval that is not positive.\<close>

definition NewTicker :: "int64 \<Rightarrow> unit go" where
  "NewTicker d = (if 0 <s d then Inr () else Inl (Panic ''non-positive interval for NewTicker''))"

text \<open>From the configuration to the UID.\<close>

definition load_state ::
    "string + Config \<Rightarrow> FileStorage \<Rightarrow> bool \<Rightarrow> string + string \<Rightarrow> uid_file \<Rightarrow> (FileStorage tracker \<times> string) go" where
  "load_state cfg fstorage dbg NewV4 uidf =
     go_bind (LoadConfig cfg) (\<lambda>c.
     go_bind (LoadTailers (NewTracker file_storage fstorage dbg)) (\<lambda>tracker.
     go_bind (NewTicker (ticker_interval c)) (\<lambda>_.
     go_bind (getUID NewV4 uidf) (\<lambda>(uid, _).
       Inr (tracker, uid)))))"

text \<open>
  Then the clean-up against docker.  The subscription and the listener, which run from here on beside
  \<open>main\<close>, are \<open>starts\<close> and \<open>listener_run\<close>; the clean-up is modelled as if neither had done anything yet.
\<close>

definition startup ::
    "string + Config \<Rightarrow> FileStorage \<Rightarrow> bool \<Rightarrow> string + string \<Rightarrow> uid_file \<Rightarrow> get \<Rightarrow>
     (string \<Rightarrow> err \<times> string list) \<Rightarrow> (string list \<Rightarrow> string list) \<Rightarrow>
     ((string \<rightharpoonup> tail_node) \<Rightarrow> string list) \<Rightarrow> (FileStorage tracker \<times> string) go" where
  "startup cfg fstorage dbg NewV4 uidf get unmarshal perm keys =
     go_bind (load_state cfg fstorage dbg NewV4 uidf) (\<lambda>(tracker, uid).
     go_bind (TrackerCleanUp get unmarshal perm (keys (insts tracker)) tracker) (\<lambda>tracker.
       Inr (tracker, uid)))"

text \<open>
  All of \<open>main\<close> but the subscription above: after the start-up the process copies the events of the
  cloud until their stream ends.
\<close>

definition apptail_main ::
    "string + Config \<Rightarrow> FileStorage \<Rightarrow> bool \<Rightarrow> string + string \<Rightarrow> uid_file \<Rightarrow> get \<Rightarrow>
     (string \<Rightarrow> err \<times> string list) \<Rightarrow> (string list \<Rightarrow> string list) \<Rightarrow>
     ((string \<rightharpoonup> tail_node) \<Rightarrow> string list) \<Rightarrow> node \<Rightarrow> payload list \<Rightarrow> broker \<Rightarrow>
     (FileStorage tracker \<times> string \<times> broker) go" where
  "apptail_main cfg fstorage dbg NewV4 uidf get unmarshal perm keys N cloud_events pub =
     go_bind (startup cfg fstorage dbg NewV4 uidf get unmarshal perm keys) (\<lambda>(tracker, uid).
     go_bind (MonitorCloudEvents N cloud_events pub) (\<lambda>pub. Inr (tracker, uid, pub)))"

text \<open>\<open>sync.Once\<close>: whatever \<open>LocalIP\<close> would answer later, the id stays.\<close>

lemma LocalNodeId_stable:
  "LocalNodeId_call ip s = Inr (i, s') \<Longrightarrow> LocalNodeId_call ip' s' = Inr (i, s')"
  by (auto simp: LocalNodeId_call_def split: option.splits sum.splits)

section \<open>The guard\<close>

definition starter_inv :: "starter \<Rightarrow> bool" where
  "starter_inv s \<longleftrightarrow> distinct (before_Tail s @ after_Tail s) \<and>
     set (before_Tail s) \<union> set (after_Tail s) = dom (started s)"

lemma starter_inv_step: "starts s s' \<Longrightarrow> starter_inv s \<Longrightarrow> starter_inv s'"
proof (erule startsE)
  fix i
  assume "starter_inv s" "s' = newinstance i s"
  then show "starter_inv s'"
    by (auto simp: starter_inv_def newinstance_def checkInstanceAndUpdate_def Let_def)
next
  fix i
  assume "starter_inv s" "s' = run_Tail i s" "i \<in> set (before_Tail s)"
  then show "starter_inv s'"
    by (auto simp: starter_inv_def run_Tail_def)
next
  fix i
  assume "starter_inv s" "s' = run_delete i s" "i \<in> set (after_Tail s)"
  then show "starter_inv s'"
    by (auto simp: starter_inv_def run_delete_def delete_started_def)
next
  fix i
  assume "starter_inv s" "s' = run_exit i s"
  then show "starter_inv s'"
    by (simp add: starter_inv_def run_exit_def)
qed

lemma starter_inv_reachable: "starts\<^sup>*\<^sup>* no_instances s \<Longrightarrow> starter_inv s"
proof (induction rule: rtranclp_induct)
  case base
  then show ?case by (simp add: starter_inv_def no_instances_def)
qed (rule starter_inv_step)

section \<open>Properties\<close>

text \<open>
  C23. At any time at most one goroutine is starting the tailers of a container, and the containers
  being started are exactly those the map remembers, whatever messages and goroutines interleave.
\<close>

theorem instances_started_once_at_a_time:
  assumes "starts\<^sup>*\<^sup>* no_instances s"
  shows "distinct (before_Tail s @ after_Tail s) \<and>
    set (before_Tail s) \<union> set (after_Tail s) = dom (started s)"
  using starter_inv_reachable [OF assms] by (simp add: starter_inv_def)

theorem instances_started_once_at_a_time_witness:
  "starts\<^sup>*\<^sup>* no_instances (newinstance ''c1'' no_instances) \<and>
   before_Tail (newinstance ''c1'' no_instances) = [''c1''] \<and>
   dom (started (newinstance ''c1'' no_instances)) = {''c1''}"
proof -
  have r: "starts\<^sup>*\<^sup>* no_instances (newinstance ''c1'' no_instances)"
    by (rule r_into_rtranclp) (rule message)
  have b: "before_Tail (newinstance ''c1'' no_instances) = [''c1'']"
    "after_Tail (newinstance ''c1'' no_instances) = []"
    by (simp_all add: newinstance_def no_instances_def checkInstanceAndUpdate_def)
  from instances_started_once_at_a_time [OF r] b r show ?thesis by simp
qed

lemma two_messages:
  "starts\<^sup>*\<^sup>* no_instances (run_Tail i (newinstance i (run_delete i (run_Tail i (newinstance i no_instances)))))"
proof -
  let ?a = "newinstance i no_instances"
  let ?b = "run_Tail i ?a"
  let ?d = "run_delete i ?b"
  let ?e = "newinstance i ?d"
  have 1: "starts no_instances ?a" by (rule message)
  have 2: "starts ?a ?b"
    by (rule tails) (simp add: newinstance_def no_instances_def checkInstanceAndUpdate_def)
  have 3: "starts ?b ?d" by (rule deletes) (simp add: run_Tail_def)
  have 4: "starts ?d ?e" by (rule message)
  have 5: "starts ?e (run_Tail i ?e)"
    by (rule tails) (simp add: newinstance_def no_instances_def checkInstanceAndUpdate_def
        run_delete_def run_Tail_def delete_started_def)
  show ?thesis
    by (rule converse_rtranclp_into_rtranclp [OF 1 converse_rtranclp_into_rtranclp [OF 2
        converse_rtranclp_into_rtranclp [OF 3 converse_rtranclp_into_rtranclp [OF 4
        r_into_rtranclp [of starts, OF 5]]]]])
qed

text \<open>
  C40. The guard does not keep a container from being tailed twice at a time: \<open>Tail\<close> returns as soon as
  it has started the tailers and the entry is deleted then, so a second message for a container that
  is still being tailed, no container having exited, starts a second set of tailers beside the first.
\<close>

theorem duplicate_message_tails_twice:
  "\<exists>s. starts\<^sup>*\<^sup>* no_instances s \<and> exited s = [] \<and> tailing s = [i, i]"
proof (intro exI conjI)
  let ?s = "run_Tail i (newinstance i (run_delete i (run_Tail i (newinstance i no_instances))))"
  show "starts\<^sup>*\<^sup>* no_instances ?s" by (rule two_messages)
  show "exited ?s = []" "tailing ?s = [i, i]"
    by (simp_all add: run_Tail_def newinstance_def run_delete_def no_instances_def Let_def
        case_prod_unfold)
qed

text \<open>
  C13. Starting up on a working disk with a sensible interval restores what was known about the
  containers that still live, offsets included, forgets the others (all are kept when docker lists
  none), and leaves the tracker ready.
\<close>

theorem startup_restores_live:
  assumes "fs_healthy s" and "fs_stored s = Some (Gob saved)"
    and "0 < sint (PersistPositionIntervalSeconds c)"
    and "sint (PersistPositionIntervalSeconds c) \<le> 9223372036"
    and "getUID NewV4 uidf = Inr (uid, uidf')"
    and "\<And>i. 0 \<le> i \<Longrightarrow> i < RETRY \<Longrightarrow> lists_ids get unmarshal i (js i)"
    and "rearranges perm" and "ranges (keys (Instances saved)) (Instances saved)"
  shows "\<exists>tr. startup (Inr c) s dbg NewV4 uidf get unmarshal perm keys = Inr (tr, uid) \<and>
    ready file_storage fs_healthy tr \<and>
    (let live = (\<Union>i\<in>{0..<RETRY}. key ` set (js i)) in
     insts tr = (if live = {} then Instances saved else Instances saved |` live))"
proof -
  let ?t = "(NewTracker file_storage s dbg)\<lparr>Cached := saved\<rparr>"
  have l: "LoadTailers (NewTracker file_storage s dbg) = Inr ?t"
    using FileStorage_Load_stored [OF assms(1,2), of "\<lparr>Instances = Map.empty\<rparr>"]
    by (simp add: LoadTailers_def NewTracker_def)
  have "sint (ticker_interval c) = sint (PersistPositionIntervalSeconds c) * 1000000000"
    using assms(3,4) by (simp add: ticker_interval_def sint_i64_mul)
  then have n: "NewTicker (ticker_interval c) = Inr ()"
    using assms(3) by (simp add: NewTicker_def word_sless_alt)
  have t: "ready file_storage fs_healthy ?t" "insts ?t = Instances saved" "\<not> mux ?t"
    using assms(1) by (simp_all add: ready_def NewTracker_def)
  let ?live = "\<Union>i\<in>{0..<RETRY}. key ` set (js i)"
  have "TrackerCleanUp get unmarshal perm (keys (insts ?t)) ?t =
      Inr (let live = ?live in if live = {} then ?t else set_insts (insts ?t |` live) ?t)"
    using assms(8) t(2,3) by (intro TrackerCleanUp_live [OF assms(6) _ assms(7)]) simp_all
  then have "startup (Inr c) s dbg NewV4 uidf get unmarshal perm keys =
      Inr (let live = ?live in if live = {} then ?t else set_insts (insts ?t |` live) ?t, uid)"
    by (simp add: startup_def load_state_def LoadConfig_def load_config_def l n assms(5))
  with t show ?thesis by (auto simp: Let_def)
qed

theorem startup_restores_live_witness:
  "\<exists>tr. startup (Inr \<lparr>MaxRecordSize = 0, MaxLinesPerSecond = 0, MaxLinesBurst = 0, FileSizeLimit = 16,
        PersistPositionIntervalSeconds = 7\<rparr>) (fs_put (Gob (Cached demo_known)) demo_fs) False (Inr ''u1'')
      \<lparr>uid_content = None, uid_stat_error = None, uid_read_error = None, uid_write_error = None\<rparr>
      (\<lambda>_. (Some (None, ''[]''), None)) (\<lambda>_. (None, [''0123456789abcdef''])) rev (\<lambda>_. [''0123456789ab'']) =
      Inr (tr, ''u1'') \<and> offset_of tr ''0123456789ab'' ''/c1/x'' = Some 7"
proof -
  let ?c = "\<lparr>MaxRecordSize = 0, MaxLinesPerSecond = 0, MaxLinesBurst = 0, FileSizeLimit = 16,
        PersistPositionIntervalSeconds = 7\<rparr>"
  let ?s = "fs_put (Gob (Cached demo_known)) demo_fs"
  let ?f = "\<lparr>uid_content = None, uid_stat_error = None, uid_read_error = None, uid_write_error = None\<rparr>"
  let ?get = "\<lambda>_::int. (Some (None :: err, ''[]''), None :: err)"
  let ?un = "\<lambda>_::string. (None :: err, [''0123456789abcdef''])"
  have u: "getUID (Inr ''u1'') ?f = Inr (''u1'', ?f\<lparr>uid_content := Some ''u1''\<rparr>)"
    by (simp add: getUID_def)
  have j: "lists_ids ?get ?un i [''0123456789abcdef'']" for i
    by (simp add: lists_ids_def ID_LENGTH_def)
  have r: "ranges [''0123456789ab''] (Instances (Cached demo_known))"
    by (simp add: ranges_def demo_known_def)
  have l: "(\<Union>i\<in>{0..<RETRY}. key ` set [''0123456789abcdef'']) = {''0123456789ab''}"
    by (auto simp: RETRY_def ID_LENGTH_def)
  have "\<exists>tr. startup (Inr ?c) ?s False (Inr ''u1'') ?f ?get ?un rev (\<lambda>_. [''0123456789ab'']) = Inr (tr, ''u1'') \<and>
      ready file_storage fs_healthy tr \<and>
      (let live = (\<Union>i\<in>{0..<RETRY}. key ` set [''0123456789abcdef'']) in
       insts tr = (if live = {} then Instances (Cached demo_known) else Instances (Cached demo_known) |` live))"
    by (rule startup_restores_live [where js = "\<lambda>_. [''0123456789abcdef'']", OF _ _ _ _ u j rearranges_rev r])
      simp_all
  then obtain tr where "startup (Inr ?c) ?s False (Inr ''u1'') ?f ?get ?un rev (\<lambda>_. [''0123456789ab'']) = Inr (tr, ''u1'')"
    and "insts tr = Instances (Cached demo_known) |` {''0123456789ab''}"
    unfolding l by (auto simp: Let_def)
  then show ?thesis by (auto simp: offset_of_def demo_known_def)
qed

text \<open>
  The UID of a node does not change: once \<open>getUID\<close> has returned one, every later start on the
  same node returns the same, whatever \<open>NewV4\<close> would generate, as long as the file can be read.
\<close>

theorem uid_is_stable:
  assumes "getUID NewV4 f = Inr (uid, f')" and "uid_read_error f = None"
  shows "getUID NewV4' f' = Inr (uid, f')"
  using assms by (auto simp: getUID_def split: if_splits sum.splits option.splits)

theorem uid_is_stable_witness:
  "getUID (Inr ''u2'') \<lparr>uid_content = Some ''u1'', uid_stat_error = None, uid_read_error = None,
     uid_write_error = None\<rparr> =
   Inr (''u1'', \<lparr>uid_content = Some ''u1'', uid_stat_error = None, uid_read_error = None,
     uid_write_error = None\<rparr>)"
  by (rule uid_is_stable [of "Inr ''u1''" "\<lparr>uid_content = None, uid_stat_error = None, uid_read_error = None,
     uid_write_error = None\<rparr>"]) (simp_all add: getUID_def)

end
