(* ===== verification/Template.thy ===== *)
theory Template
  imports Common
begin

text \<open>
  The part of package \<open>text/template\<close> the event formats use, and \<open>simpleTemplate\<close> of
  \<open>sieve/handler.go\<close>, which rewrites \<open>$1\<close> to \<open>{{index . 1}}\<close>.  \<open>parse_nodes\<close> reads texts whose
  actions are all \<open>{{index . N}}\<close> or \<open>{{.name}}\<close>; any other template is handed to the parameter
  \<open>other\<close>.
\<close>

section \<open>Values and templates\<close>

text \<open>What a template is executed on: the regex groups, or the decoded JSON object.\<close>

datatype tmpl_data = Results "string list" | Fields "(string \<times> json) list"

type_synonym template = "tmpl_data \<Rightarrow> string + string"

datatype node = NChar char | NIndex nat | NField string

section \<open>Parsing\<close>

definition is_digit :: "char \<Rightarrow> bool" where
  "is_digit c \<longleftrightarrow> 48 \<le> (of_char c :: nat) \<and> (of_char c :: nat) \<le> 57"

definition digit_val :: "char \<Rightarrow> nat" where
  "digit_val c = of_char c - 48"

definition dec_val :: "string \<Rightarrow> nat" where
  "dec_val ds = foldl (\<lambda>n c. 10 * n + digit_val c) 0 ds"

text \<open>A decimal literal without leading zeros, in the range of \<open>int\<close>.\<close>

definition canonical :: "string \<Rightarrow> bool" where
  "canonical ds \<longleftrightarrow> ds \<noteq> [] \<and> list_all is_digit ds \<and> (hd ds = CHR ''0'' \<longrightarrow> ds = ''0'') \<and>
     dec_val ds < 2 ^ 63"

definition is_letter :: "char \<Rightarrow> bool" where
  "is_letter c \<longleftrightarrow> (let n = (of_char c :: nat) in
     65 \<le> n \<and> n \<le> 90 \<or> 97 \<le> n \<and> n \<le> 122 \<or> n = 95)"

definition is_ident :: "string \<Rightarrow> bool" where
  "is_ident f \<longleftrightarrow> f \<noteq> [] \<and> is_letter (hd f) \<and> list_all (\<lambda>c. is_letter c \<or> is_digit c) f"

definition parse_action :: "string \<Rightarrow> node option" where
  "parse_action a =
     (if HasPrefix a ''index . '' \<and> canonical (drop 8 a) then Some (NIndex (dec_val (drop 8 a)))
      else if HasPrefix a ''.'' \<and> is_ident (drop 1 a) then Some (NField (drop 1 a))
      else None)"

text \<open>The text of an action, up to the first closing braces, and what follows them.\<close>

fun upto_close :: "string \<Rightarrow> (string \<times> string) option" where
  "upto_close [] = None"
| "upto_close (c # s) =
     (if HasPrefix (c # s) ''}}'' then Some ([], drop 1 s)
      else map_option (\<lambda>(a, r). (c # a, r)) (upto_close s))"

lemma upto_close_shorter: "upto_close s = Some (a, r) \<Longrightarrow> length r < length s"
  by (induction s arbitrary: a r) (auto split: if_splits)

function parse_nodes :: "string \<Rightarrow> node list option" where
  "parse_nodes [] = Some []"
| "parse_nodes (c # s) =
     (if HasPrefix (c # s) ''{{'' then
        (case upto_close (drop 1 s) of
           None \<Rightarrow> None
         | Some (a, r) \<Rightarrow>
             (case parse_action a of
                None \<Rightarrow> None
              | Some n \<Rightarrow> map_option ((#) n) (parse_nodes r)))
      else map_option ((#) (NChar c)) (parse_nodes s))"
  by pat_completeness auto
termination
proof (relation "measure length", goal_cases)
  case (2 c s p a r n)
  then have "length r < length (drop 1 s)" using upto_close_shorter by metis
  then show ?case by simp
qed auto

section \<open>Execution\<close>

text \<open>\<open>fprint\<close>: how a JSON value that is not a string is printed.\<close>

fun exec_node :: "(json \<Rightarrow> string) \<Rightarrow> tmpl_data \<Rightarrow> node \<Rightarrow> string + string" where
  "exec_node fprint d (NChar c) = Inr [c]"
| "exec_node fprint (Results rs) (NIndex n) =
     (if n < length rs then Inr (rs ! n) else Inl (''index out of range: '' @ nat_dec n))"
| "exec_node fprint (Results rs) (NField f) = Inl (''can't evaluate field '' @ f)"
| "exec_node fprint (Fields m) (NIndex n) = Inl ''value has type int; should be string''"
| "exec_node fprint (Fields m) (NField f) =
     (case map_of m f of
        None \<Rightarrow> Inr ''<no value>''
      | Some (JString s) \<Rightarrow> Inr s
      | Some v \<Rightarrow> Inr (fprint v))"

fun exec_nodes :: "(json \<Rightarrow> string) \<Rightarrow> node list \<Rightarrow> template" where
  "exec_nodes fprint [] d = Inr []"
| "exec_nodes fprint (n # ns) d =
     (case exec_node fprint d n of
        Inl e \<Rightarrow> Inl e
      | Inr out \<Rightarrow> (case exec_nodes fprint ns d of Inl e \<Rightarrow> Inl e | Inr outs \<Rightarrow> Inr (out @ outs)))"

record template_api =
  OtherTemplate :: "string \<Rightarrow> template option"
  Fprint :: "json \<Rightarrow> string"

definition tmpl_Parse :: "('x) template_api_scheme \<Rightarrow> string \<Rightarrow> template option" where
  "tmpl_Parse T s =
     (case parse_nodes s of
        Some ns \<Rightarrow> Some (exec_nodes (Fprint T) ns)
      | None \<Rightarrow> OtherTemplate T s)"

definition Must :: "template option \<Rightarrow> template go" where
  "Must t = (case t of None \<Rightarrow> Inl (Panic ''template'') | Some t \<Rightarrow> Inr t)"

section \<open>simpleTemplate\<close>

text \<open>\<open>templateIndexRe.ReplaceAllString(tmpl, "{{index . $1}}")\<close> for the regex \<open>\$(\d+)\<close>.\<close>

function replace_index :: "string \<Rightarrow> string" where
  "replace_index [] = []"
| "replace_index (c # s) =
     (let ds = takeWhile is_digit s in
      if c = CHR ''$'' \<and> ds \<noteq> []
      then ''{{index . '' @ ds @ ''}}'' @ replace_index (dropWhile is_digit s)
      else c # replace_index s)"
  by pat_completeness auto
termination
  by (relation "measure length") (auto simp: length_dropWhile_le le_imp_less_Suc)

definition simpleTemplate :: "('x) template_api_scheme \<Rightarrow> string \<Rightarrow> template go" where
  "simpleTemplate T tmpl = Must (tmpl_Parse T (replace_index tmpl))"

declare replace_index.simps [simp del] parse_nodes.simps [simp del]

section \<open>What a simple format means\<close>

text \<open>
  Reference: copy the format, each \<open>$N\<close> (longest run of digits) replaced by the \<open>N\<close>-th group.
\<close>

function subst_groups :: "string list \<Rightarrow> string \<Rightarrow> string + string" where
  "subst_groups rs [] = Inr []"
| "subst_groups rs (c # s) =
     (let ds = takeWhile is_digit s in
      if c = CHR ''$'' \<and> ds \<noteq> []
      then (if dec_val ds < length rs
            then map_sum id ((@) (rs ! dec_val ds)) (subst_groups rs (dropWhile is_digit s))
            else Inl (''index out of range: '' @ nat_dec (dec_val ds)))
      else map_sum id ((#) c) (subst_groups rs s))"
  by pat_completeness auto
termination
  by (relation "measure (length \<circ> snd)") (auto simp: length_dropWhile_le le_imp_less_Suc)

declare subst_groups.simps [simp del]

text \<open>A format of the simple kind: no braces of its own, and literals Go reads in decimal.\<close>

function simple_format :: "string \<Rightarrow> bool" where
  "simple_format [] = True"
| "simple_format (c # s) =
     (let ds = takeWhile is_digit s in
      if c = CHR ''$'' \<and> ds \<noteq> []
      then canonical ds \<and> simple_format (dropWhile is_digit s)
      else c \<noteq> CHR ''{'' \<and> simple_format s)"
  by pat_completeness auto
termination
  by (relation "measure length") (auto simp: length_dropWhile_le le_imp_less_Suc)

declare simple_format.simps [simp del]

lemma upto_close_digits:
  "list_all is_digit ds \<Longrightarrow> upto_close (ds @ ''}}'' @ r) = Some (ds, r)"
  by (induction ds) (auto simp: HasPrefix_def is_digit_def)

lemma upto_close_index:
  "list_all is_digit ds \<Longrightarrow> upto_close (''index . '' @ ds @ ''}}'' @ r) = Some (''index . '' @ ds, r)"
  using upto_close_digits [of ds r] by (simp add: HasPrefix_def)

lemma parse_action_index: "canonical ds \<Longrightarrow> parse_action (''index . '' @ ds) = Some (NIndex (dec_val ds))"
  by (simp add: parse_action_def HasPrefix_def)

lemma parse_nodes_index:
  assumes "canonical ds"
  shows "parse_nodes (''{{index . '' @ ds @ ''}}'' @ r) =
    map_option ((#) (NIndex (dec_val ds))) (parse_nodes r)"
proof -
  have "list_all is_digit ds" using assms by (simp add: canonical_def)
  from upto_close_index [OF this, of r] parse_action_index [OF assms]
  show ?thesis by (simp add: parse_nodes.simps(2) HasPrefix_def)
qed

lemma parse_nodes_char:
  "c \<noteq> CHR ''{'' \<Longrightarrow> parse_nodes (c # s) = map_option ((#) (NChar c)) (parse_nodes s)"
  by (subst parse_nodes.simps) (simp add: HasPrefix_def)

lemma simple_format_parses:
  "simple_format s \<Longrightarrow>
   \<exists>ns. parse_nodes (replace_index s) = Some ns \<and>
     (\<forall>rs. exec_nodes fp ns (Results rs) = subst_groups rs s)"
proof (induction s rule: replace_index.induct)
  case 1
  show ?case by (simp add: replace_index.simps parse_nodes.simps subst_groups.simps)
next
  case (2 c s)
  let ?ds = "takeWhile is_digit s" and ?r = "dropWhile is_digit s"
  show ?case
  proof (cases "c = CHR ''$'' \<and> ?ds \<noteq> []")
    case True
    with "2.prems" have c: "canonical ?ds" and r: "simple_format ?r"
      by (auto simp: simple_format.simps(2) Let_def)
    from "2.IH"(1) [OF refl True r] obtain ns
      where ns: "parse_nodes (replace_index ?r) = Some ns"
        and ex: "\<forall>rs. exec_nodes fp ns (Results rs) = subst_groups rs ?r"
      by blast
    have "parse_nodes (replace_index (c # s)) = Some (NIndex (dec_val ?ds) # ns)"
      using True ns parse_nodes_index [OF c] by (simp add: replace_index.simps Let_def)
    moreover have "exec_nodes fp (NIndex (dec_val ?ds) # ns) (Results rs) = subst_groups rs (c # s)"
      for rs
      using True ex by (auto simp: subst_groups.simps Let_def split: sum.split)
    ultimately show ?thesis by blast
  next
    case False
    with "2.prems" have c: "c \<noteq> CHR ''{''" and r: "simple_format s"
      by (auto simp: simple_format.simps(2) Let_def)
    from "2.IH"(2) [OF refl False r] obtain ns
      where ns: "parse_nodes (replace_index s) = Some ns"
        and ex: "\<forall>rs. exec_nodes fp ns (Results rs) = subst_groups rs s"
      by blast
    have "parse_nodes (replace_index (c # s)) = Some (NChar c # ns)"
      using False ns c by (auto simp: replace_index.simps Let_def parse_nodes_char)
    moreover have "exec_nodes fp (NChar c # ns) (Results rs) = subst_groups rs (c # s)" for rs
      using False ex by (auto simp: subst_groups.simps Let_def split: sum.split)
    ultimately show ?thesis by blast
  qed
qed

lemma simpleTemplate_simple:
  "simple_format s \<Longrightarrow> \<exists>t. simpleTemplate T s = Inr t \<and> (\<forall>rs. t (Results rs) = subst_groups rs s)"
  using simple_format_parses [of s "Fprint T"]
  by (auto simp: simpleTemplate_def tmpl_Parse_def Must_def)

end
