(* ===== verification/Regex_Alt.thy ===== *)
theory Regex_Alt
  imports Prelude
begin

text \<open>
  The part of package \<open>regexp\<close> behind \<open>MultiRegexpMatcher.Build\<close>: quoting literals, joining them
  with a bar, compiling the result and searching with it.  Only the sublanguage those strings lie in
  is parsed (alternatives of literal characters, specials behind a backslash); \<open>None\<close> is a string
  outside it.  Matching is by bytes, which agrees with Go's matching by runes on valid UTF-8.
\<close>

section \<open>QuoteMeta and Join\<close>

definition special :: "char \<Rightarrow> bool" where
  "special c \<longleftrightarrow> c \<in> set [CHR 0x5C, CHR ''.'', CHR ''+'', CHR ''*'', CHR ''?'', CHR ''('', CHR '')'',
     CHR ''|'', CHR ''['', CHR '']'', CHR ''{'', CHR ''}'', CHR ''^'', CHR ''$'']"

fun QuoteMeta :: "string \<Rightarrow> string" where
  "QuoteMeta [] = []"
| "QuoteMeta (c # s) = (if special c then CHR 0x5C # c # QuoteMeta s else c # QuoteMeta s)"

fun Join :: "string list \<Rightarrow> string \<Rightarrow> string" where
  "Join [] sep = []"
| "Join [s] sep = s"
| "Join (s # t # ts) sep = s @ sep @ Join (t # ts) sep"

section \<open>Compiling an alternation of literals\<close>

fun parse_alts :: "string \<Rightarrow> string list option" where
  "parse_alts [] = Some [[]]"
| "parse_alts (c # s) =
     (if c = CHR 0x5C then
        (case s of
           [] \<Rightarrow> None
         | d # s' \<Rightarrow>
             if special d
             then map_option (\<lambda>as. (d # hd as) # tl as) (parse_alts s')
             else None)
      else if c = CHR ''|'' then map_option ((#) []) (parse_alts s)
      else if special c then None
      else map_option (\<lambda>as. (c # hd as) # tl as) (parse_alts s))"

lemma parse_alts_nonempty: "parse_alts s = Some as \<Longrightarrow> as \<noteq> []"
  by (induction s arbitrary: as rule: parse_alts.induct) (auto split: if_splits list.splits)

lemma special_bar [simp]: "special (CHR ''|'')" "special (CHR 0x5C)"
  by (simp_all add: special_def)

lemma parse_alts_QuoteMeta:
  "parse_alts (QuoteMeta s @ r) = map_option (\<lambda>as. (s @ hd as) # tl as) (parse_alts r)"
proof (induction s)
  case Nil
  then show ?case
    by (cases "parse_alts r") (auto dest: parse_alts_nonempty)
next
  case (Cons c s)
  have "c \<noteq> CHR 0x5C \<and> c \<noteq> CHR ''|''" if "\<not> special c"
    using that special_bar by metis
  then show ?case
    using Cons by (cases "parse_alts r") auto
qed

lemma parse_alts_Join:
  "ss \<noteq> [] \<Longrightarrow> parse_alts (Join (map QuoteMeta ss) ''|'') = Some ss"
proof (induction ss rule: induct_list012)
  case (2 s)
  then show ?case using parse_alts_QuoteMeta [of s "[]"] by simp
next
  case (3 s t ts)
  then show ?case by (simp add: parse_alts_QuoteMeta)
qed simp

section \<open>Leftmost-first search\<close>

fun find_alt :: "string list \<Rightarrow> string \<Rightarrow> string option" where
  "find_alt alts tx =
     (case find (HasPrefix tx) alts of
        Some a \<Rightarrow> Some a
      | None \<Rightarrow> (case tx of [] \<Rightarrow> None | _ # t \<Rightarrow> find_alt alts t))"

declare find_alt.simps [simp del]

text \<open>\<open>FindString\<close> answers the empty string both for no match and for an empty one.\<close>

definition FindString :: "string list \<Rightarrow> string \<Rightarrow> string" where
  "FindString alts tx = (case find_alt alts tx of None \<Rightarrow> [] | Some a \<Rightarrow> a)"

text \<open>An alternative is found at offset \<open>length p\<close>: it stands there, and none stands earlier.\<close>

definition found_at :: "string list \<Rightarrow> string \<Rightarrow> string \<Rightarrow> string \<Rightarrow> bool" where
  "found_at alts tx p a \<longleftrightarrow>
     (\<exists>r. tx = p @ r \<and> find (HasPrefix r) alts = Some a) \<and>
     (\<forall>q b. length q < length p \<longrightarrow> b \<in> set alts \<longrightarrow> \<not> (\<exists>r. tx = q @ b @ r))"

lemma find_HasPrefix_None: "find (HasPrefix r) alts = None \<longleftrightarrow> (\<forall>b \<in> set alts. \<not> HasPrefix r b)"
  by (auto simp: find_None_iff)

lemma find_alt_Some: "find_alt alts tx = Some a \<Longrightarrow> \<exists>p. found_at alts tx p a"
proof (induction alts tx rule: find_alt.induct)
  case (1 alts tx)
  show ?case
  proof (cases "find (HasPrefix tx) alts")
    case (Some b)
    with 1 have "found_at alts tx [] a"
      by (subst (asm) find_alt.simps) (simp add: found_at_def)
    then show ?thesis by blast
  next
    case None
    with "1.prems" obtain c t where t: "tx = c # t" "find_alt alts t = Some a"
      by (subst (asm) find_alt.simps) (auto split: list.splits)
    with "1.IH" None obtain p where p: "found_at alts t p a" by blast
    have "\<not> (\<exists>r. tx = q @ b @ r)" if "length q < length (c # p)" "b \<in> set alts" for q b
    proof (cases q)
      case Nil
      with None that show ?thesis by (auto simp: find_HasPrefix_None HasPrefix_iff)
    next
      case (Cons d q')
      with p that t show ?thesis by (auto simp: found_at_def)
    qed
    with p t have "found_at alts tx (c # p) a" by (auto simp: found_at_def)
    then show ?thesis by blast
  qed
qed

lemma find_alt_None: "find_alt alts tx = None \<longleftrightarrow> (\<forall>b \<in> set alts. \<not> (\<exists>p r. tx = p @ b @ r))"
proof (induction alts tx rule: find_alt.induct)
  case (1 alts tx)
  show ?case
  proof (cases "find (HasPrefix tx) alts")
    case (Some b)
    then have "b \<in> set alts" "\<exists>r. tx = [] @ b @ r"
      by (auto simp: find_Some_iff HasPrefix_iff)
    with Some show ?thesis by (subst find_alt.simps) (simp, blast)
  next
    case None
    then have n: "\<forall>b \<in> set alts. \<not> (\<exists>r. tx = b @ r)"
      by (auto simp: find_HasPrefix_None HasPrefix_iff)
    show ?thesis
    proof (cases tx)
      case Nil
      with None n show ?thesis by (subst find_alt.simps) auto
    next
      case (Cons c t)
      have "(\<exists>p r. tx = p @ b @ r) \<longleftrightarrow> (\<exists>p r. t = p @ b @ r)" if "b \<in> set alts" for b
        using n that Cons by (metis append_Cons append_Nil list.sel(3) neq_Nil_conv)
      with "1.IH" [OF None Cons] None Cons show ?thesis
        by (subst find_alt.simps) simp
    qed
  qed
qed

text \<open>The position is determined, and with no alternative a prefix of another so is the result.\<close>

definition prefix_free :: "string list \<Rightarrow> bool" where
  "prefix_free ss \<longleftrightarrow> (\<forall>a \<in> set ss. \<forall>b \<in> set ss. HasPrefix a b \<longrightarrow> a = b)"

lemma HasPrefix_linear: "HasPrefix r a \<Longrightarrow> HasPrefix r b \<Longrightarrow> HasPrefix a b \<or> HasPrefix b a"
  by (metis HasPrefix_iff append_eq_append_conv2)

lemma find_prefix_free:
  assumes "prefix_free xs" and "set xs = set ys"
  shows "find (HasPrefix r) xs = find (HasPrefix r) ys"
proof (cases "find (HasPrefix r) xs")
  case None
  then show ?thesis using assms(2) by (metis find_HasPrefix_None)
next
  case (Some a)
  then have a: "a \<in> set xs" "HasPrefix r a" by (auto simp: find_Some_iff)
  then obtain b where b: "find (HasPrefix r) ys = Some b"
    using assms(2) by (metis find_HasPrefix_None not_None_eq)
  then have "b \<in> set xs" "HasPrefix r b" using assms(2) by (auto simp: find_Some_iff)
  with a assms(1) have "a = b" using HasPrefix_linear by (metis prefix_free_def)
  with Some b show ?thesis by simp
qed

lemma find_alt_prefix_free:
  assumes "prefix_free xs" and "set xs = set ys"
  shows "find_alt xs tx = find_alt ys tx"
proof (induction tx)
  case Nil
  then show ?case
    by (subst (1 2) find_alt.simps) (simp add: find_prefix_free [OF assms] split: option.split)
next
  case (Cons c t)
  then show ?case
    by (subst (1 2) find_alt.simps) (simp add: find_prefix_free [OF assms] split: option.split)
qed

end
