(* ===== verification/Sieve_Match.thy ===== *)
theory Sieve_Match
  imports Regex_Alt "HOL-Library.AList"
begin

text \<open>
  \<open>sieve/match.go\<close>: matching a text against several regular expressions after a search for literal
  substrings.  Maps are association lists with distinct keys; a \<open>range\<close> over one visits the keys in
  the order a permutation \<open>ord\<close> gives.  General regular expressions are a parameter (\<open>runtime\<close>):
  what compiles, and what \<open>FindStringSubmatch\<close> answers (\<open>None\<close> is \<open>nil\<close>).
\<close>

record 're regexps_api =
  MustCompile :: "string \<Rightarrow> 're option"
  FindStringSubmatch :: "'re \<Rightarrow> string \<Rightarrow> string list option"

record 're MultiRegexpMatcher =
  substrings :: "(string \<times> string) list"
  regexps :: "(string \<times> 're) list"
  substringsRegexp :: "string list option"

definition NewMultiRegexpMatcher :: "'re MultiRegexpMatcher" where
  "NewMultiRegexpMatcher = \<lparr>substrings = [], regexps = [], substringsRegexp = None\<rparr>"

definition MustAdd ::
    "('re, 'x) regexps_api_scheme \<Rightarrow> string \<Rightarrow> string \<Rightarrow> string \<Rightarrow> 're MultiRegexpMatcher \<Rightarrow>
     're MultiRegexpMatcher go" where
  "MustAdd R name substring re m =
     (case map_of (substrings m) substring of
        Some oldName \<Rightarrow>
          Inl (Exit (''substring '' @ substring @ '' already added under '' @ oldName @
            ''; being added again by '' @ name))
      | None \<Rightarrow>
          if map_of (regexps m) name \<noteq> None then Inl (Exit ''already in regexps'')
          else (case MustCompile R re of
                  None \<Rightarrow> Inl (Panic ''regexp: Compile'')
                | Some r \<Rightarrow>
                    Inr (m\<lparr>substrings := AList.update substring name (substrings m),
                           regexps := AList.update name r (regexps m)\<rparr>)))"

definition matcher_Build ::
    "(string list \<Rightarrow> string list) \<Rightarrow> 're MultiRegexpMatcher \<Rightarrow> 're MultiRegexpMatcher go" where
  "matcher_Build ord m =
     (let escaped = map QuoteMeta (ord (map fst (substrings m))) in
      case parse_alts (Join escaped ''|'') of
        None \<Rightarrow> Inl (Panic ''regexp: Compile'')
      | Some alts \<Rightarrow> Inr (m\<lparr>substringsRegexp := Some alts\<rparr>))"

definition Match ::
    "('re, 'x) regexps_api_scheme \<Rightarrow> 're MultiRegexpMatcher \<Rightarrow> string \<Rightarrow>
     (string \<times> string list option) go" where
  "Match R m txt =
     (case substringsRegexp m of
        None \<Rightarrow> Inl (Panic ''nil pointer dereference'')
      | Some alts \<Rightarrow>
          let substring = FindString alts txt in
          if substring = [] then Inr ([], None)
          else case map_of (substrings m) substring of
                 None \<Rightarrow> Inl (Panic ''not reachable'')
               | Some name \<Rightarrow>
                   (case map_of (regexps m) name of
                      None \<Rightarrow> Inl (Panic ''not reachable'')
                    | Some re \<Rightarrow> Inr (name, FindStringSubmatch R re txt)))"

section \<open>Building\<close>

text \<open>
  The matcher holds exactly the triples \<open>(name, substring, regex)\<close> it was given, in that order.
\<close>

definition holds_entries ::
    "('re, 'x) regexps_api_scheme \<Rightarrow> (string \<times> string \<times> string) list \<Rightarrow> 're MultiRegexpMatcher \<Rightarrow> bool" where
  "holds_entries R es m \<longleftrightarrow>
     substrings m = map (\<lambda>e. (fst (snd e), fst e)) es \<and>
     regexps m = map (\<lambda>e. (fst e, the (MustCompile R (snd (snd e))))) es \<and>
     (\<forall>e \<in> set es. MustCompile R (snd (snd e)) \<noteq> None) \<and>
     distinct (map fst es) \<and> distinct (map (fst \<circ> snd) es)"

lemma update_fresh: "map_of al k = None \<Longrightarrow> AList.update k v al = al @ [(k, v)]"
  by (induction al) (auto split: if_splits)

lemma holds_entries_names: "holds_entries R es m \<Longrightarrow> map fst (regexps m) = map fst es"
  by (simp add: holds_entries_def o_def)

lemma holds_entries_regexps:
  assumes "holds_entries R es m" and "(n, s, re) \<in> set es"
  shows "\<exists>r. MustCompile R re = Some r \<and> map_of (regexps m) n = Some r"
proof -
  from assms obtain r where r: "MustCompile R re = Some r" by (force simp: holds_entries_def)
  with assms have "(n, r) \<in> set (regexps m)" by (force simp: holds_entries_def)
  moreover have "distinct (map fst (regexps m))"
    using assms(1) by (simp only: holds_entries_names) (simp add: holds_entries_def)
  ultimately show ?thesis using r by simp
qed

lemma holds_entries_substrings:
  assumes "holds_entries R es m" and "(n, s, re) \<in> set es"
  shows "map_of (substrings m) s = Some n"
proof -
  have "(s, n) \<in> set (substrings m)" using assms by (force simp: holds_entries_def)
  moreover have "distinct (map fst (substrings m))"
    using assms(1) by (simp add: holds_entries_def o_def)
  ultimately show ?thesis by simp
qed

lemma holds_entries_keys: "holds_entries R es m \<Longrightarrow> map fst (substrings m) = map (fst \<circ> snd) es"
  by (simp add: holds_entries_def)

lemma MustAdd_entries:
  assumes "holds_entries R es m" and "MustAdd R n s re m = Inr m'"
  shows "holds_entries R (es @ [(n, s, re)]) m'"
proof -
  from assms(2) obtain r
    where new: "map_of (substrings m) s = None" "map_of (regexps m) n = None"
      and r: "MustCompile R re = Some r"
      and m': "m' = m\<lparr>substrings := AList.update s n (substrings m),
                        regexps := AList.update n r (regexps m)\<rparr>"
    by (auto simp: MustAdd_def split: option.splits if_splits)
  have "s \<notin> set (map (fst \<circ> snd) es)"
    using new(1) by (auto simp: holds_entries_keys [OF assms(1), symmetric] map_of_eq_None_iff)
  moreover have "n \<notin> set (map fst es)"
    using new(2) by (simp add: holds_entries_names [OF assms(1), symmetric] map_of_eq_None_iff)
  ultimately show ?thesis
    using assms(1) r unfolding m' update_fresh [OF new(1)] update_fresh [OF new(2)]
    by (simp add: holds_entries_def)
qed

lemma matcher_Build_eq:
  assumes "substrings m \<noteq> []" and "rearranges ord"
  shows "matcher_Build ord m =
    Inr (m\<lparr>substringsRegexp := Some (ord (map fst (substrings m)))\<rparr>)"
proof -
  have "mset (ord (map fst (substrings m))) \<noteq> {#}"
    using assms by (simp add: rearranges_def)
  then have "ord (map fst (substrings m)) \<noteq> []" by auto
  then show ?thesis
    by (simp add: matcher_Build_def Let_def parse_alts_Join)
qed

lemma matcher_Build_empty:
  assumes "substrings m = []" and "rearranges ord"
  shows "matcher_Build ord m = Inr (m\<lparr>substringsRegexp := Some [[]]\<rparr>)"
proof -
  have "mset (ord []) = {#}" using assms(2) by (simp add: rearranges_def)
  then show ?thesis using assms(1) by (simp add: matcher_Build_def)
qed

section \<open>Matching\<close>

text \<open>A built matcher: its entries, and the alternation in some order of the substrings.\<close>

definition built ::
    "('re, 'x) regexps_api_scheme \<Rightarrow> (string \<times> string \<times> string) list \<Rightarrow> string list \<Rightarrow>
     're MultiRegexpMatcher \<Rightarrow> bool" where
  "built R es alts m \<longleftrightarrow> holds_entries R es m \<and> substringsRegexp m = Some alts \<and>
     (if es = [] then alts = [[]] else mset alts = mset (map (fst \<circ> snd) es))"

lemma built_Build:
  assumes "holds_entries R es m" and "rearranges ord"
  shows "\<exists>m' alts. matcher_Build ord m = Inr m' \<and> built R es alts m' \<and>
    (es \<noteq> [] \<longrightarrow> alts = ord (map (fst \<circ> snd) es))"
proof (cases "es = []")
  case True
  with assms show ?thesis
    by (auto simp: matcher_Build_empty holds_entries_def built_def)
next
  case False
  with assms have "substrings m \<noteq> []" by (auto simp: holds_entries_def)
  from matcher_Build_eq [OF this assms(2)] False assms show ?thesis
    by (auto simp: holds_entries_keys built_def rearranges_def) (simp add: holds_entries_def)
qed

lemma holds_entries_of_built: "built R es alts m \<Longrightarrow> holds_entries R es m"
  by (simp add: built_def)

lemma built_alts_set: "built R es alts m \<Longrightarrow> es \<noteq> [] \<Longrightarrow> set alts = set (map (fst \<circ> snd) es)"
  unfolding built_def by (metis mset_eq_setD)

lemma built_found:
  assumes "built R es alts m" and "find_alt alts txt = Some s" and "s \<noteq> []"
  shows "\<exists>n re. (n, s, re) \<in> set es"
proof -
  from find_alt_Some [OF assms(2)] have "s \<in> set alts"
    by (auto simp: found_at_def find_Some_iff)
  moreover have "es \<noteq> []" using assms calculation by (auto simp: built_def)
  ultimately have "s \<in> set (map (fst \<circ> snd) es)"
    using assms(1) by (metis built_def mset_eq_setD)
  then show ?thesis by fastforce
qed

text \<open>The three outcomes of a search with a built matcher.\<close>

lemma Match_built:
  assumes "built R es alts m"
  shows "Match R m txt =
    (case find_alt alts txt of
       None \<Rightarrow> Inr ([], None)
     | Some s \<Rightarrow>
         if s = [] then Inr ([], None)
         else (case find (\<lambda>(n, s', re). s' = s) es of
                 None \<Rightarrow> Inr ([], None)
               | Some (n, _, re) \<Rightarrow>
                   Inr (n, Option.bind (MustCompile R re) (\<lambda>r. FindStringSubmatch R r txt))))"
proof (cases "find_alt alts txt")
  case None
  with assms show ?thesis by (simp add: Match_def FindString_def built_def)
next
  case (Some s)
  show ?thesis
  proof (cases "s = []")
    case True
    with Some assms show ?thesis by (simp add: Match_def FindString_def built_def)
  next
    case False
    from built_found [OF assms Some False] obtain e where "e \<in> set es" "(\<lambda>(n, s', re). s' = s) e"
      by auto
    then obtain n re where f: "find (\<lambda>(n, s', re). s' = s) es = Some (n, s, re)"
      by (cases "find (\<lambda>(n, s', re). s' = s) es") (auto simp: find_None_iff dest: find_SomeD)
    then have e: "(n, s, re) \<in> set es" by (auto dest: find_SomeD)
    have h: "holds_entries R es m" and a: "substringsRegexp m = Some alts"
      using assms by (simp_all add: built_def)
    from holds_entries_regexps [OF h e] holds_entries_substrings [OF h e] Some False f a
    show ?thesis by (auto simp: Match_def FindString_def)
  qed
qed

lemma Match_built_returns: "built R es alts m \<Longrightarrow> \<exists>n rs. Match R m txt = Inr (n, rs)"
  by (auto simp: Match_built split: option.split)

lemma Match_built_hit:
  assumes "built R es alts m" and "Match R m txt = Inr (n, Some rs)"
  shows "\<exists>p s re r. (n, s, re) \<in> set es \<and> s \<noteq> [] \<and> found_at alts txt p s \<and>
    MustCompile R re = Some r \<and> FindStringSubmatch R r txt = Some rs"
  using assms(2)
  by (auto simp: Match_built [OF assms(1)] bind_eq_Some_conv
      split: option.splits if_splits dest!: find_alt_Some find_SomeD) blast

text \<open>
  With no substring a prefix of another, the answer does not depend on the order in which \<open>Build\<close>
  visited the map.
\<close>

lemma find_unique:
  assumes "x \<in> set xs" and "P x" and "\<And>y. y \<in> set xs \<Longrightarrow> P y \<Longrightarrow> y = x"
  shows "find P xs = Some x"
proof (cases "find P xs")
  case None
  with assms(1,2) show ?thesis by (simp add: find_None_iff)
next
  case (Some y)
  with assms(3) show ?thesis by (auto dest: find_SomeD)
qed

lemma find_entry:
  assumes "holds_entries R es m" and "(n, s, re) \<in> set es"
  shows "find (\<lambda>(n, s', re). s' = s) es = Some (n, s, re)"
proof (rule find_unique [OF assms(2)])
  fix y assume y: "y \<in> set es" "case y of (n, s', re) \<Rightarrow> s' = s"
  have "inj_on (fst \<circ> snd) (set es)"
    using assms(1) by (simp add: holds_entries_def distinct_map)
  with y assms(2) show "y = (n, s, re)"
    by (auto dest: inj_onD [where x = y and y = "(n, s, re)"])
qed simp

lemma Match_order_independent:
  assumes "built R es alts m" and "built R es' alts' m'" and "set es = set es'"
    and "prefix_free (map (fst \<circ> snd) es)"
  shows "Match R m txt = Match R m' txt"
proof -
  note M = Match_built [OF assms(1), of "txt"] and M' = Match_built [OF assms(2), of "txt"]
  show ?thesis
  proof (cases "es = []")
    case True
    with assms(1-3) have "alts = [[]]" "alts' = [[]]" by (auto simp: built_def)
    with M M' True assms(3) show ?thesis by (simp split: option.split)
  next
    case False
    with assms(3) have "es' \<noteq> []" by auto
    with False have a: "set alts = set (map (fst \<circ> snd) es)" "set alts' = set alts"
      using built_alts_set [OF assms(1)] built_alts_set [OF assms(2)] assms(3) by simp_all
    have "prefix_free alts" using assms(4) a(1) by (simp add: prefix_free_def)
    then have f: "find_alt alts txt = find_alt alts' txt"
      using a(2) by (intro find_alt_prefix_free) auto
    show ?thesis
    proof (cases "find_alt alts txt")
      case None
      with f show ?thesis by (simp add: M M')
    next
      case (Some s)
      show ?thesis
      proof (cases "s = []")
        case True
        with Some f show ?thesis by (simp add: M M')
      next
        case ne: False
        from built_found [OF assms(1) Some ne] obtain n re where e: "(n, s, re) \<in> set es" by blast
        with assms(3) have e': "(n, s, re) \<in> set es'" by simp
        have "find (\<lambda>(n, s', re). s' = s) es = find (\<lambda>(n, s', re). s' = s) es'"
          using find_entry [OF holds_entries_of_built [OF assms(1)] e]
            find_entry [OF holds_entries_of_built [OF assms(2)] e'] by simp
        with Some f ne show ?thesis by (simp add: M M')
      qed
    qed
  qed
qed

section \<open>Properties\<close>

definition add_all ::
    "('re, 'x) regexps_api_scheme \<Rightarrow> (string \<times> string \<times> string) list \<Rightarrow> 're MultiRegexpMatcher go" where
  "add_all R es = go_fold (\<lambda>(n, s, re). MustAdd R n s re) es NewMultiRegexpMatcher"

lemma add_all_entries: "add_all R es = Inr m \<Longrightarrow> holds_entries R es m"
  unfolding add_all_def
proof (erule go_fold_invariant [where I = "\<lambda>ys m. holds_entries R ys m"])
  show "holds_entries R [] NewMultiRegexpMatcher"
    by (simp add: holds_entries_def NewMultiRegexpMatcher_def)
qed (auto dest: MustAdd_entries)

text \<open>A literal engine, for the witnesses: a regex is found where its text stands.\<close>

definition literal_engine :: "string regexps_api" where
  "literal_engine = \<lparr>MustCompile = Some,
     FindStringSubmatch = (\<lambda>r txt. map_option (\<lambda>s. [s, r]) (find_alt [r] txt))\<rparr>"

text \<open>
  C26. Building never fails, and \<open>Match\<close> is the fast form of its specification: with no empty
  substring, it fails early exactly when no substring occurs in the text; otherwise it consults the
  regex registered under the substring that occurs leftmost (at one position, the first in the
  order the map was visited).
\<close>

theorem Match_consults_leftmost:
  assumes "add_all R es = Inr m0" and "rearranges ord" and "es \<noteq> []"
    and "\<forall>(n, s, re) \<in> set es. s \<noteq> []"
  shows "\<exists>m. matcher_Build ord m0 = Inr m \<and>
    (if \<forall>(n, s, re) \<in> set es. \<not> (\<exists>a b. txt = a @ s @ b)
     then Match R m txt = Inr ([], None)
     else \<exists>n s re r a. (n, s, re) \<in> set es \<and>
       found_at (ord (map (fst \<circ> snd) es)) txt a s \<and>
       MustCompile R re = Some r \<and> Match R m txt = Inr (n, FindStringSubmatch R r txt))"
proof -
  have h: "holds_entries R es m0" using assms(1) by (rule add_all_entries)
  let ?alts = "ord (map (fst \<circ> snd) es)"
  from built_Build [OF h assms(2)] assms(3) obtain m
    where m: "matcher_Build ord m0 = Inr m" "built R es ?alts m" by auto
  have alts: "set ?alts = set (map (fst \<circ> snd) es)"
    using built_alts_set [OF m(2) assms(3)] .
  show ?thesis
  proof (cases "find_alt ?alts txt")
    case None
    then have "\<forall>(n, s, re) \<in> set es. \<not> (\<exists>a b. txt = a @ s @ b)"
      using alts by (fastforce simp: find_alt_None)
    with m None show ?thesis by (simp add: Match_built [OF m(2)])
  next
    case (Some s)
    have "s \<in> set ?alts" using find_alt_Some [OF Some] by (auto simp: found_at_def dest: find_SomeD)
    then have "s \<noteq> []" using alts assms(4) by fastforce
    from built_found [OF m(2) Some this] obtain n re where e: "(n, s, re) \<in> set es" by blast
    from find_alt_Some [OF Some] obtain a where a: "found_at ?alts txt a s" by blast
    from holds_entries_regexps [OF h e] obtain r where r: "MustCompile R re = Some r" by blast
    have "Match R m txt = Inr (n, FindStringSubmatch R r txt)"
      using find_entry [OF h e] Some \<open>s \<noteq> []\<close> r by (simp add: Match_built [OF m(2)])
    moreover have "\<exists>a b. txt = a @ s @ b"
      using a by (auto simp: found_at_def HasPrefix_iff dest!: find_SomeD) blast
    ultimately show ?thesis using m e a r by fastforce
  qed
qed

theorem Match_consults_leftmost_witness:
  "\<exists>m0 m. add_all literal_engine [(''error'', ''ERROR'', ''ERROR --''), (''warning'', ''WARN'', ''WARN --'')] = Inr m0 \<and>
     matcher_Build rev m0 = Inr m \<and> Match literal_engine m ''x INFO'' = Inr ([], None)"
proof -
  let ?es = "[(''error'', ''ERROR'', ''ERROR --''), (''warning'', ''WARN'', ''WARN --'')]"
  obtain m0 where m0: "add_all literal_engine ?es = Inr m0"
    by (simp add: add_all_def MustAdd_def NewMultiRegexpMatcher_def literal_engine_def)
  have no: "\<forall>(n, s, re) \<in> set ?es. \<not> (\<exists>a b. ''x INFO'' = a @ s @ b)"
    by (auto simp: Cons_eq_append_conv)
  from Match_consults_leftmost [OF m0 rearranges_rev, of "''x INFO''"] no m0
  show ?thesis by auto
qed

text \<open>
  When no substring of the group is a prefix of another, the answer of \<open>Match\<close> does not depend
  on the orders in which the maps were visited.
\<close>

theorem Match_ignores_map_order:
  assumes "add_all R es = Inr m1" and "add_all R es' = Inr m2" and "mset es = mset es'"
    and "rearranges ord" and "rearranges ord'" and "prefix_free (map (fst \<circ> snd) es)"
  shows "\<exists>m m'. matcher_Build ord m1 = Inr m \<and> matcher_Build ord' m2 = Inr m' \<and>
    (\<forall>txt. Match R m txt = Match R m' txt)"
proof -
  from built_Build [OF add_all_entries [OF assms(1)] assms(4)] obtain m alts
    where m: "matcher_Build ord m1 = Inr m" "built R es alts m" by blast
  from built_Build [OF add_all_entries [OF assms(2)] assms(5)] obtain m' alts'
    where m': "matcher_Build ord' m2 = Inr m'" "built R es' alts' m'" by blast
  from Match_order_independent [OF m(2) m'(2) mset_eq_setD [OF assms(3)] assms(6)] m m'
  show ?thesis by blast
qed

theorem Match_ignores_map_order_witness:
  "\<exists>m1 m2 m m'. add_all literal_engine [(''error'', ''ERROR'', ''E''), (''warning'', ''WARN'', ''W'')] = Inr m1 \<and>
     add_all literal_engine [(''warning'', ''WARN'', ''W''), (''error'', ''ERROR'', ''E'')] = Inr m2 \<and>
     matcher_Build id m1 = Inr m \<and> matcher_Build rev m2 = Inr m' \<and>
     (\<forall>txt. Match literal_engine m txt = Match literal_engine m' txt)"
proof -
  let ?es = "[(''error'', ''ERROR'', ''E''), (''warning'', ''WARN'', ''W'')]"
  obtain m1 where m1: "add_all literal_engine ?es = Inr m1"
    by (simp add: add_all_def MustAdd_def NewMultiRegexpMatcher_def literal_engine_def)
  obtain m2 where m2: "add_all literal_engine (rev ?es) = Inr m2"
    by (simp add: add_all_def MustAdd_def NewMultiRegexpMatcher_def literal_engine_def)
  have "prefix_free (map (fst \<circ> snd) ?es)" by (auto simp: prefix_free_def HasPrefix_def)
  from Match_ignores_map_order [OF m1 m2 _ _ rearranges_rev this, of id] m1 m2
  show ?thesis by (simp add: rearranges_def)
qed

text \<open>
  Without that condition the event a text is classified as depends on Go's map iteration order:
  the same two entries, visited in two orders, give two different event types.
\<close>

theorem Match_depends_on_map_order:
  "\<exists>m0 m m'. add_all literal_engine [(''conn'', ''error: conn'', ''conn''), (''error'', ''error'', ''error'')] = Inr m0 \<and>
     matcher_Build id m0 = Inr m \<and> matcher_Build rev m0 = Inr m' \<and>
     Match literal_engine m ''error: conn lost'' = Inr (''conn'', Some [''conn'', ''conn'']) \<and>
     Match literal_engine m' ''error: conn lost'' = Inr (''error'', Some [''error'', ''error''])"
proof -
  let ?m0 = "\<lparr>substrings = [(''error: conn'', ''conn''), (''error'', ''error'')],
    regexps = [(''conn'', ''conn''), (''error'', ''error'')], substringsRegexp = None\<rparr>"
  have "add_all literal_engine [(''conn'', ''error: conn'', ''conn''), (''error'', ''error'', ''error'')] = Inr ?m0"
    by (simp add: add_all_def MustAdd_def NewMultiRegexpMatcher_def literal_engine_def)
  moreover have "matcher_Build id ?m0 = Inr (?m0\<lparr>substringsRegexp := Some [''error: conn'', ''error'']\<rparr>)"
    by (subst matcher_Build_eq) (simp_all add: rearranges_def)
  moreover have "matcher_Build rev ?m0 = Inr (?m0\<lparr>substringsRegexp := Some [''error'', ''error: conn'']\<rparr>)"
    by (subst matcher_Build_eq) simp_all
  moreover have "Match literal_engine (?m0\<lparr>substringsRegexp := Some [''error: conn'', ''error'']\<rparr>)
      ''error: conn lost'' = Inr (''conn'', Some [''conn'', ''conn''])"
    by (simp add: Match_def FindString_def find_alt.simps HasPrefix_def literal_engine_def Let_def)
  moreover have "Match literal_engine (?m0\<lparr>substringsRegexp := Some [''error'', ''error: conn'']\<rparr>)
      ''error: conn lost'' = Inr (''error'', Some [''error'', ''error''])"
    by (simp add: Match_def FindString_def find_alt.simps HasPrefix_def literal_engine_def Let_def)
  ultimately show ?thesis by blast
qed

end
