(* ===== verification/Sieve_Handler.thy ===== *)
theory Sieve_Handler
  imports Template Sieve_Match
begin

text \<open>
  \<open>sieve/handler.go\<close>: the two event handlers, and the interface \<open>EventHandler\<close> the parser calls.
  \<open>json.Unmarshal\<close> into the event's map is a parameter: the object a text decodes to, with its
  numbers as an \<open>interface{}\<close> holds them, or the error.
\<close>

record 're sieve_env = "'re regexps_api" +
  tmpl_api :: template_api
  UnmarshalInfo :: "string \<Rightarrow> string + (string \<times> json) list"

datatype EventHandler =
    SimpleEventHandler template string
  | JsonEventHandler template string

definition NewSimpleEventHandler :: "'re sieve_env \<Rightarrow> string \<Rightarrow> string \<Rightarrow> EventHandler go" where
  "NewSimpleEventHandler E severity descTmpl =
     go_bind (simpleTemplate (tmpl_api E) descTmpl) (\<lambda>t. Inr (SimpleEventHandler t severity))"

definition NewJsonEventHandler :: "'re sieve_env \<Rightarrow> string \<Rightarrow> string \<Rightarrow> EventHandler go" where
  "NewJsonEventHandler E severity descTmpl =
     go_bind (Must (tmpl_Parse (tmpl_api E) descTmpl)) (\<lambda>t. Inr (JsonEventHandler t severity))"

text \<open>
  The result is the error, or the event as the handler leaves it.  \<open>err\<close> is what went wrong in the
  template; \<open>text/template\<close> adds the name and the position, which are left out: the sieve drops the
  event whatever the error says.  \<open>JsonEventHandler\<close> checks for at
  least one result but reads the second.
\<close>

fun HandleEvent ::
    "'re sieve_env \<Rightarrow> EventHandler \<Rightarrow> string list \<Rightarrow> Event \<Rightarrow> (string + Event) go" where
  "HandleEvent E (SimpleEventHandler tmpl sev) results event =
     (case tmpl (Results results) of
        Inl err \<Rightarrow> Inr (Inl (''error in custom event handler '' @ Type event @ ''; '' @ err))
      | Inr output \<Rightarrow> Inr (Inr (event\<lparr>Desc := output, Severity := sev\<rparr>)))"
| "HandleEvent E (JsonEventHandler tmpl sev) results event =
     (if length results < 1 then Inr (Inl ''no regex matches found'')
      else if length results \<le> 1 then Inl (Panic ''index out of range'')
      else case UnmarshalInfo E (results ! 1) of
             Inl err \<Rightarrow> Inr (Inl err)
           | Inr info \<Rightarrow>
               (case tmpl (Fields info) of
                  Inl err \<Rightarrow> Inr (Inl (''error in known event handler '' @ Type event @ ''; '' @ err))
                | Inr output \<Rightarrow>
                    Inr (Inr (event\<lparr>Info := info, Desc := output, Severity := sev\<rparr>))))"

text \<open>The event the parser hands to a handler, and the call.\<close>

definition new_Event :: "string \<Rightarrow> string \<Rightarrow> Event" where
  "new_Event ty process =
     \<lparr>Type = ty, Desc = [], Severity = ''INFO'', Info = [], Process = process,
      Common = zero_MessageCommon\<rparr>"

lemma new_Event_simps [simp]:
  "Type (new_Event ty p) = ty" "Process (new_Event ty p) = p"
  by (simp_all add: new_Event_def)

section \<open>The interface EventHandler\<close>

text \<open>
  What the parser relies on: a handler changes neither the type nor the process of the event, gives
  it its own severity, and returns once it has the results it reads.
\<close>

locale event_handler =
  fixes handle :: "'h \<Rightarrow> string list \<Rightarrow> Event \<Rightarrow> (string + Event) go"
    and severity :: "'h \<Rightarrow> string"
    and needs :: "'h \<Rightarrow> nat"
  assumes handle_ok:
      "handle h rs ev = Inr (Inr ev') \<Longrightarrow>
       Type ev' = Type ev \<and> Process ev' = Process ev \<and> Severity ev' = severity h"
    and handle_returns: "needs h \<le> length rs \<Longrightarrow> \<exists>r. handle h rs ev = Inr r"
begin

lemma handle_new_Event:
  "handle h rs (new_Event ty p) = Inr (Inr ev) \<Longrightarrow>
   Type ev = ty \<and> Process ev = p \<and> Severity ev = severity h"
  using handle_ok by fastforce

lemma handle_not_stopped: "needs h \<le> length rs \<Longrightarrow> handle h rs ev \<noteq> Inl e"
  by (metis handle_returns sum.distinct(1))

end

primrec handler_severity :: "EventHandler \<Rightarrow> string" where
  "handler_severity (SimpleEventHandler t sev) = sev"
| "handler_severity (JsonEventHandler t sev) = sev"

primrec handler_needs :: "EventHandler \<Rightarrow> nat" where
  "handler_needs (SimpleEventHandler t sev) = 0"
| "handler_needs (JsonEventHandler t sev) = 2"

interpretation handler: event_handler "HandleEvent E" handler_severity handler_needs for E
proof (unfold_locales, goal_cases)
  case (1 h rs ev ev')
  then show ?case by (cases h) (auto split: sum.splits if_splits)
next
  case (2 h rs ev)
  then show ?case by (cases h) (auto split: sum.split)
qed

end
