(* ===== verification/Sieve_Parser.thy ===== *)
theory Sieve_Parser
  imports Sieve_Handler
begin

text \<open>
  \<open>sieve/parser.go\<close>: the tree of event parsers, one matcher per group, and \<open>Parse\<close> with its fallback
  to the group \<open>__all__\<close>.  A Go map is the association list of its entries in some order; \<open>orders\<close>
  gives the orders in which the \<open>range\<close> loops of \<open>Build\<close> visit theirs.
\<close>

section \<open>Specifications and parsers\<close>

record EventParserSpec =
  spec_Substring :: string
  spec_Re :: string
  spec_Sample :: string
  spec_Format :: string
  spec_Severity :: string
  spec_HandlerType :: string

record EventParser =
  Substring :: string
  Re :: string
  Sample :: string
  Handler :: "EventHandler option" \<comment> \<open>\<open>None\<close> is the nil interface\<close>

definition ToEventParser :: "'re sieve_env \<Rightarrow> EventParserSpec \<Rightarrow> EventParser go" where
  "ToEventParser E p =
     (let p = (if spec_Severity p = [] then p\<lparr>spec_Severity := ''INFO''\<rparr> else p);
          e = \<lparr>Substring = spec_Substring p, Re = spec_Re p, Sample = spec_Sample p, Handler = None\<rparr>
      in if spec_HandlerType p = [] \<or> spec_HandlerType p = ''simple'' then
           go_bind (NewSimpleEventHandler E (spec_Severity p) (spec_Format p)) (\<lambda>h.
             Inr (e\<lparr>Handler := Some h\<rparr>))
         else if spec_HandlerType p = ''json'' then
           go_bind (NewJsonEventHandler E (spec_Severity p) (spec_Format p)) (\<lambda>h.
             Inr (e\<lparr>Handler := Some h\<rparr>))
         else Inr e)"

type_synonym EventParserGroup = "(string \<times> EventParser) list"

record 're Parser =
  tree :: "(string \<times> EventParserGroup) list"
  matchers :: "(string \<times> 're MultiRegexpMatcher) list"

definition NewParser :: "(string \<times> EventParserGroup) list \<Rightarrow> 're Parser" where
  "NewParser t = \<lparr>tree = t, matchers = []\<rparr>"

record orders =
  ord_tree :: "(string \<times> EventParserGroup) list \<Rightarrow> (string \<times> EventParserGroup) list"
  ord_group :: "EventParserGroup \<Rightarrow> EventParserGroup"
  ord_substrings :: "string list \<Rightarrow> string list"

definition orders_ok :: "orders \<Rightarrow> bool" where
  "orders_ok O' \<longleftrightarrow> rearranges (ord_tree O') \<and> rearranges (ord_group O') \<and>
     rearranges (ord_substrings O')"

definition build_group ::
    "'re sieve_env \<Rightarrow> orders \<Rightarrow> EventParserGroup \<Rightarrow> 're MultiRegexpMatcher go" where
  "build_group E O' grp =
     go_bind (go_fold (\<lambda>(event_name, event_parser).
                 MustAdd E event_name (Substring event_parser) (Re event_parser))
               (ord_group O' grp) NewMultiRegexpMatcher)
       (matcher_Build (ord_substrings O'))"

definition parser_Build :: "'re sieve_env \<Rightarrow> orders \<Rightarrow> 're Parser \<Rightarrow> 're Parser go" where
  "parser_Build E O' parser =
     go_fold (\<lambda>(group_name, grp) parser.
         go_bind (build_group E O' grp) (\<lambda>matcher.
           Inr (parser\<lparr>matchers := AList.update group_name matcher (matchers parser)\<rparr>)))
       (ord_tree O' (tree parser)) parser"

definition DeleteSamples :: "'re Parser \<Rightarrow> 're Parser" where
  "DeleteSamples parser =
     parser\<lparr>tree := map (map_prod id (map (map_prod id (\<lambda>p. p\<lparr>Sample := []\<rparr>)))) (tree parser)\<rparr>"

section \<open>Parse\<close>

text \<open>Calling a method of the nil interface panics.\<close>

definition call_handler ::
    "'re sieve_env \<Rightarrow> EventParser \<Rightarrow> string list \<Rightarrow> Event \<Rightarrow> (string + Event option) go" where
  "call_handler E event_parser results event =
     (case Handler event_parser of
        None \<Rightarrow> Inl (Panic ''nil pointer dereference'')
      | Some h \<Rightarrow>
          go_bind (HandleEvent E h results event) (\<lambda>r. Inr (map_sum id Some r)))"

definition parseStarGroup ::
    "'re sieve_env \<Rightarrow> 're Parser \<Rightarrow> string \<Rightarrow> string \<Rightarrow> (string + Event option) go" where
  "parseStarGroup E parser orig_group txt =
     (case map_of (tree parser) ''__all__'' of
        None \<Rightarrow> Inr (Inr None)
      | Some grp \<Rightarrow>
          (case map_of (matchers parser) ''__all__'' of
             None \<Rightarrow> Inl (Panic ''nil pointer dereference'')
           | Some matcher \<Rightarrow>
               go_bind (Match E matcher txt) (\<lambda>(event_type, results).
                 case results of
                   None \<Rightarrow> Inr (Inr None)
                 | Some rs \<Rightarrow>
                     (case map_of grp event_type of
                        None \<Rightarrow> Inl (Panic ''nil pointer dereference'')
                      | Some event_parser \<Rightarrow>
                          call_handler E event_parser rs (new_Event event_type orig_group)))))"

definition Parse ::
    "'re sieve_env \<Rightarrow> 're Parser \<Rightarrow> string \<Rightarrow> string \<Rightarrow> (string + Event option) go" where
  "Parse E parser group_name txt =
     (case map_of (tree parser) group_name of
        None \<Rightarrow> parseStarGroup E parser group_name txt
      | Some grp \<Rightarrow>
          (case map_of (matchers parser) group_name of
             None \<Rightarrow> Inl (Panic ''not reachable'')
           | Some matcher \<Rightarrow>
               go_bind (Match E matcher txt) (\<lambda>(event_type, results).
                 case results of
                   None \<Rightarrow> parseStarGroup E parser group_name txt
                 | Some rs \<Rightarrow>
                     (case map_of grp event_type of
                        None \<Rightarrow> Inl (Panic ''not reachable'')
                      | Some event_parser \<Rightarrow>
                          call_handler E event_parser rs (new_Event event_type group_name)))))"

text \<open>
  The two loops of \<open>NewStackatoParser\<close> go through \<open>spec\<close> and its groups in the order the association
  lists have, which is as arbitrary as any; the results below hold for every list.
\<close>

definition NewStackatoParser ::
    "'re sieve_env \<Rightarrow> orders \<Rightarrow> (string \<times> (string \<times> EventParserSpec) list) list \<Rightarrow> 're Parser go" where
  "NewStackatoParser E O' spec =
     go_bind
       (go_fold (\<lambda>(process, d) parserSpec.
          go_bind (go_fold (\<lambda>(eventName, evt) grp.
                      go_bind (ToEventParser E evt) (\<lambda>p. Inr (AList.update eventName p grp)))
                    d (case map_of parserSpec process of None \<Rightarrow> [] | Some g \<Rightarrow> g))
            (\<lambda>grp. Inr (AList.update process grp parserSpec)))
        spec [])
       (\<lambda>parserSpec. parser_Build E O' (NewParser parserSpec))"

section \<open>The matchers match the tree\<close>

definition entries :: "EventParserGroup \<Rightarrow> (string \<times> string \<times> string) list" where
  "entries grp = map (\<lambda>(n, p). (n, Substring p, Re p)) grp"

lemma in_entries: "(n, s, re) \<in> set (entries grp) \<longleftrightarrow> (\<exists>p. (n, p) \<in> set grp \<and> s = Substring p \<and> re = Re p)"
  by (force simp: entries_def)

lemma entries_snoc: "entries (ys @ [(n, p)]) = entries ys @ [(n, Substring p, Re p)]"
  by (simp add: entries_def)

lemma entries_names [simp]: "map fst (entries grp) = map fst grp"
  by (simp add: entries_def o_def split_def)

text \<open>A matcher built, in some order, from the entries of a group.\<close>

definition built_for :: "'re sieve_env \<Rightarrow> EventParserGroup \<Rightarrow> 're MultiRegexpMatcher \<Rightarrow> bool" where
  "built_for E grp m \<longleftrightarrow> (\<exists>es alts. built E es alts m \<and> mset es = mset (entries grp))"

lemma built_for_distinct: "built_for E grp m \<Longrightarrow> distinct (map fst grp)"
proof -
  assume "built_for E grp m"
  then obtain es where "distinct (map fst es)" "mset es = mset (entries grp)"
    by (auto simp: built_for_def built_def holds_entries_def)
  then have "distinct (map fst (entries grp))"
    by (metis mset_eq_imp_distinct_iff mset_map)
  then show ?thesis by simp
qed

lemma built_for_returns: "built_for E grp m \<Longrightarrow> \<exists>n rs. Match E m txt = Inr (n, rs)"
  by (auto simp: built_for_def dest: Match_built_returns)

lemma built_for_hit:
  assumes "built_for E grp m" and "Match E m txt = Inr (n, Some rs)"
  shows "\<exists>p r. map_of grp n = Some p \<and> Substring p \<noteq> [] \<and> (\<exists>a b. txt = a @ Substring p @ b) \<and>
    MustCompile E (Re p) = Some r \<and> FindStringSubmatch E r txt = Some rs"
proof -
  from assms(1) obtain es alts where b: "built E es alts m" and e: "mset es = mset (entries grp)"
    by (auto simp: built_for_def)
  from Match_built_hit [OF b assms(2)] obtain a s re r
    where h: "(n, s, re) \<in> set es" "s \<noteq> []" "found_at alts txt a s" "MustCompile E re = Some r"
      "FindStringSubmatch E r txt = Some rs"
    by blast
  from h(1) mset_eq_setD [OF e] obtain p
    where p: "(n, p) \<in> set grp" "s = Substring p" "re = Re p"
    by (auto simp: in_entries)
  then have "map_of grp n = Some p" using built_for_distinct [OF assms(1)] by simp
  moreover have "\<exists>a b. txt = a @ s @ b"
    using h(3) by (auto simp: found_at_def HasPrefix_iff dest!: find_SomeD) blast
  ultimately show ?thesis using h p by blast
qed

lemma build_group_built:
  assumes "orders_ok O'" and "build_group E O' grp = Inr m"
  shows "built_for E grp m"
proof -
  let ?add = "\<lambda>(n, p). MustAdd E n (Substring p) (Re p)"
  from assms(2) obtain m0 where f: "go_fold ?add (ord_group O' grp) NewMultiRegexpMatcher = Inr m0"
    and b: "matcher_Build (ord_substrings O') m0 = Inr m"
    by (auto simp: build_group_def go_bind_eq_Inr)
  have "holds_entries E (entries (ord_group O' grp)) m0"
  proof (rule go_fold_invariant [OF f, where I = "\<lambda>ys m. holds_entries E (entries ys) m"])
    show "holds_entries E (entries []) NewMultiRegexpMatcher"
      by (simp add: entries_def holds_entries_def NewMultiRegexpMatcher_def)
  qed (auto simp: entries_snoc dest: MustAdd_entries)
  moreover have "mset (entries (ord_group O' grp)) = mset (entries grp)"
    using assms(1) by (simp add: entries_def orders_ok_def rearranges_def)
  ultimately show ?thesis
    using built_Build [of E "entries (ord_group O' grp)" m0 "ord_substrings O'"] b assms(1)
    by (auto simp: built_for_def orders_ok_def)
qed

text \<open>A parser whose every group has its matcher.\<close>

definition parser_ok :: "'re sieve_env \<Rightarrow> 're Parser \<Rightarrow> bool" where
  "parser_ok E parser \<longleftrightarrow> distinct (map fst (tree parser)) \<and>
     (\<forall>(g, grp) \<in> set (tree parser).
        \<exists>m. map_of (matchers parser) g = Some m \<and> built_for E grp m)"

lemma parser_Build_ok:
  assumes "orders_ok O'" and "distinct (map fst t)" and "parser_Build E O' (NewParser t) = Inr parser"
  shows "parser_ok E parser \<and> tree parser = t"
proof -
  let ?step = "\<lambda>(g, grp) parser. go_bind (build_group E O' grp) (\<lambda>matcher.
      Inr (parser\<lparr>matchers := AList.update g matcher (matchers parser)\<rparr>))"
  let ?I = "\<lambda>ys p. distinct (map fst ys) \<longrightarrow> tree p = t \<and>
      (\<forall>(g, grp) \<in> set ys. \<exists>m. map_of (matchers p) g = Some m \<and> built_for E grp m)"
  from assms(3) have f: "go_fold ?step (ord_tree O' t) (NewParser t) = Inr parser"
    by (simp add: parser_Build_def NewParser_def)
  have "?I (ord_tree O' t) parser"
  proof (rule go_fold_invariant [OF f, where I = ?I])
    fix ys x p p' assume I: "?I ys p" and x: "?step x p = Inr p'"
    obtain g grp where [simp]: "x = (g, grp)" by (cases x)
    from x obtain m where m: "build_group E O' grp = Inr m"
      and p': "p' = p\<lparr>matchers := AList.update g m (matchers p)\<rparr>"
      by (auto simp: go_bind_eq_Inr)
    from build_group_built [OF assms(1) m] I show "?I (ys @ [x]) p'"
      by (force simp: p' update_conv')
  qed (simp add: NewParser_def)
  moreover have "mset (ord_tree O' t) = mset t"
    using assms(1) by (simp add: orders_ok_def rearranges_def)
  then have "distinct (map fst (ord_tree O' t))" "set (ord_tree O' t) = set t"
    using assms(2) by (metis mset_eq_imp_distinct_iff mset_map) (metis \<open>mset _ = _\<close> mset_eq_setD)
  ultimately show ?thesis using assms(2) by (simp add: parser_ok_def)
qed

lemma parser_ok_matcher:
  "parser_ok E parser \<Longrightarrow> map_of (tree parser) g = Some grp \<Longrightarrow>
   \<exists>m. map_of (matchers parser) g = Some m \<and> built_for E grp m"
  by (fastforce simp: parser_ok_def dest: map_of_SomeD)

section \<open>The parser of a configuration\<close>

type_synonym config_spec = "(string \<times> (string \<times> EventParserSpec) list) list"

definition spec_wf :: "config_spec \<Rightarrow> bool" where
  "spec_wf spec \<longleftrightarrow> distinct (map fst spec) \<and> (\<forall>(g, d) \<in> set spec. distinct (map fst d))"

definition parsed_group ::
    "'re sieve_env \<Rightarrow> (string \<times> EventParserSpec) list \<Rightarrow> EventParserGroup \<Rightarrow> bool" where
  "parsed_group E d grp \<longleftrightarrow>
     list_all2 (\<lambda>(n, evt) (n', p). n = n' \<and> ToEventParser E evt = Inr p) d grp"

lemma list_all2_names:
  "list_all2 (\<lambda>(n, x) (n', y). n = n' \<and> Q x y) xs ys \<Longrightarrow> map fst xs = map fst ys"
  by (induction xs ys rule: list_all2_induct) auto

lemma list_all2_lookup:
  "list_all2 (\<lambda>(n, x) (n', y). n = n' \<and> Q x y) xs ys \<Longrightarrow> map_of ys k = Some y \<Longrightarrow>
   \<exists>x. map_of xs k = Some x \<and> Q x y"
  by (induction xs ys rule: list_all2_induct) (auto split: if_splits)

lemma inner_loop:
  assumes "go_fold (\<lambda>(n, evt) grp. go_bind (ToEventParser E evt) (\<lambda>p. Inr (AList.update n p grp)))
      d [] = Inr grp" and "distinct (map fst d)"
  shows "parsed_group E d grp"
proof -
  let ?I = "\<lambda>ys grp. distinct (map fst ys) \<longrightarrow> parsed_group E ys grp"
  have "?I d grp"
  proof (rule go_fold_invariant [OF assms(1), where I = ?I], goal_cases)
    case (2 ys x s s')
    obtain n evt where [simp]: "x = (n, evt)" by (cases x)
    from 2 obtain p where p: "ToEventParser E evt = Inr p" "s' = AList.update n p s"
      by (auto simp: go_bind_eq_Inr)
    show ?case
    proof
      assume "distinct (map fst (ys @ [x]))"
      with 2 have g: "parsed_group E ys s" and n: "n \<notin> set (map fst ys)" by auto
      from g have "map fst ys = map fst s"
        unfolding parsed_group_def by (rule list_all2_names)
      with n have "map_of s n = None" by (metis list.set_map map_of_eq_None_iff)
      with g p show "parsed_group E (ys @ [x]) s'"
        by (simp add: parsed_group_def update_fresh list_all2_appendI)
    qed
  qed (simp add: parsed_group_def)
  with assms(2) show ?thesis by simp
qed

text \<open>The tree \<open>NewStackatoParser\<close> builds is the configuration, spec by spec.\<close>

definition parsed_tree ::
    "'re sieve_env \<Rightarrow> config_spec \<Rightarrow> (string \<times> EventParserGroup) list \<Rightarrow> bool" where
  "parsed_tree E spec t \<longleftrightarrow> list_all2 (\<lambda>(g, d) (g', grp). g = g' \<and> parsed_group E d grp) spec t"

lemma outer_loop:
  assumes "go_fold (\<lambda>(process, d) ps.
        go_bind (go_fold (\<lambda>(n, evt) grp. go_bind (ToEventParser E evt) (\<lambda>p. Inr (AList.update n p grp)))
            d (case map_of ps process of None \<Rightarrow> [] | Some g \<Rightarrow> g))
          (\<lambda>grp. Inr (AList.update process grp ps))) spec [] = Inr t"
    and "spec_wf spec"
  shows "parsed_tree E spec t"
proof -
  let ?I = "\<lambda>ys t. distinct (map fst ys) \<longrightarrow> parsed_tree E ys t"
  have "?I spec t"
  proof (rule go_fold_invariant [OF assms(1), where I = ?I], goal_cases)
    case (2 ys x s s')
    obtain g d where [simp]: "x = (g, d)" by (cases x)
    show ?case
    proof
      assume "distinct (map fst (ys @ [x]))"
      with 2 have t: "parsed_tree E ys s" and g: "g \<notin> set (map fst ys)" by auto
      from t have "map fst ys = map fst s"
        unfolding parsed_tree_def by (rule list_all2_names)
      with g have fresh: "map_of s g = None" by (metis list.set_map map_of_eq_None_iff)
      with 2 obtain grp where
        grp: "go_fold (\<lambda>(n, evt) grp. go_bind (ToEventParser E evt)
            (\<lambda>p. Inr (AList.update n p grp))) d [] = Inr grp" and s': "s' = AList.update g grp s"
        by (auto simp: go_bind_eq_Inr)
      have "distinct (map fst d)" using 2(2) assms(2) by (auto simp: spec_wf_def)
      from inner_loop [OF grp this] t fresh show "parsed_tree E (ys @ [x]) s'"
        by (simp add: s' parsed_tree_def update_fresh list_all2_appendI)
    qed
  qed (simp add: parsed_tree_def)
  with assms(2) show ?thesis by (simp add: spec_wf_def)
qed

lemma NewStackatoParser_ok:
  assumes "spec_wf spec" and "orders_ok O'" and "NewStackatoParser E O' spec = Inr parser"
  shows "parser_ok E parser \<and> parsed_tree E spec (tree parser)"
proof -
  from assms(3) obtain t where t: "parsed_tree E spec t" and b: "parser_Build E O' (NewParser t) = Inr parser"
    using outer_loop [OF _ assms(1)] by (fastforce simp: NewStackatoParser_def go_bind_eq_Inr)
  from t have "map fst spec = map fst t"
    unfolding parsed_tree_def by (rule list_all2_names)
  with assms(1) have "distinct (map fst t)" by (simp add: spec_wf_def)
  from parser_Build_ok [OF assms(2) this b] t show ?thesis by simp
qed

lemma parsed_tree_lookup:
  assumes "parsed_tree E spec t" and "map_of t g = Some grp" and "map_of grp n = Some p"
  shows "\<exists>d evt. map_of spec g = Some d \<and> map_of d n = Some evt \<and> ToEventParser E evt = Inr p"
proof -
  from list_all2_lookup [OF assms(1) [unfolded parsed_tree_def] assms(2)] obtain d
    where d: "map_of spec g = Some d" "parsed_group E d grp" by blast
  from list_all2_lookup [OF d(2) [unfolded parsed_group_def] assms(3)] d(1) show ?thesis by blast
qed

lemma ToEventParser_fields:
  assumes "ToEventParser E evt = Inr p"
  shows "Substring p = spec_Substring evt" "Re p = spec_Re evt" "Sample p = spec_Sample evt"
    and "Handler p = Some h \<Longrightarrow>
      handler_severity h = (if spec_Severity evt = [] then ''INFO'' else spec_Severity evt)"
    and "Handler p = Some h \<Longrightarrow> handler_needs h = (if spec_HandlerType evt = ''json'' then 2 else 0)"
    and "Handler p = None \<longleftrightarrow> spec_HandlerType evt \<notin> {[], ''simple'', ''json''}"
  using assms
  by (auto simp: ToEventParser_def Let_def go_bind_eq_Inr NewSimpleEventHandler_def
      NewJsonEventHandler_def split: if_splits)

section \<open>Parse\<close>

text \<open>
  A configuration every event of which can be handled: the handler type is one the code knows, and
  the regex of a JSON event has a group whenever it matches.
\<close>

definition known_handlers :: "config_spec \<Rightarrow> bool" where
  "known_handlers spec \<longleftrightarrow> (\<forall>(g, d) \<in> set spec. \<forall>(n, evt) \<in> set d.
     spec_HandlerType evt \<in> {[], ''simple'', ''json''})"

definition json_groups :: "'re sieve_env \<Rightarrow> config_spec \<Rightarrow> bool" where
  "json_groups E spec \<longleftrightarrow> (\<forall>(g, d) \<in> set spec. \<forall>(n, evt) \<in> set d. \<forall>r txt rs.
     spec_HandlerType evt = ''json'' \<longrightarrow> MustCompile E (spec_Re evt) = Some r \<longrightarrow>
     FindStringSubmatch E r txt = Some rs \<longrightarrow> 2 \<le> length rs)"

lemma spec_lookup:
  assumes "parsed_tree E spec t" and "map_of t g = Some grp" and "map_of grp n = Some p"
  shows "\<exists>d evt. map_of spec g = Some d \<and> (g, d) \<in> set spec \<and> (n, evt) \<in> set d \<and>
    map_of d n = Some evt \<and> ToEventParser E evt = Inr p"
  using parsed_tree_lookup [OF assms] by (blast dest: map_of_SomeD)

text \<open>A match in one group can be handled.\<close>

lemma group_handled:
  assumes ok: "parser_ok E parser" "parsed_tree E spec (tree parser)"
    and wc: "known_handlers spec" "json_groups E spec"
    and g: "map_of (tree parser) g = Some grp" "map_of (matchers parser) g = Some m"
    and hit: "Match E m txt = Inr (n, Some rs)"
  shows "\<exists>p r. map_of grp n = Some p \<and> call_handler E p rs ev = Inr r"
proof -
  from parser_ok_matcher [OF ok(1) g(1)] g(2) have "built_for E grp m" by simp
  from built_for_hit [OF this hit] obtain p r
    where p: "map_of grp n = Some p" "MustCompile E (Re p) = Some r"
      "FindStringSubmatch E r txt = Some rs"
    by blast
  from spec_lookup [OF ok(2) g(1) p(1)] obtain d evt
    where d: "(g, d) \<in> set spec" "(n, evt) \<in> set d" "ToEventParser E evt = Inr p" by blast
  note f = ToEventParser_fields [OF d(3)]
  from wc(1) d(1,2) have "spec_HandlerType evt \<in> {[], ''simple'', ''json''}"
    unfolding known_handlers_def by fast
  with f(6) obtain h where h: "Handler p = Some h" by blast
  have "spec_HandlerType evt = ''json'' \<longrightarrow> 2 \<le> length rs"
    using wc(2) d(1,2) p(2,3) f(2) unfolding json_groups_def by fastforce
  with f(5) [OF h] have "handler_needs h \<le> length rs" by simp
  from handler.handle_returns [OF this, of E ev] h p(1) show ?thesis
    by (auto simp: call_handler_def)
qed

lemma parseStarGroup_returns:
  assumes "parser_ok E parser" "parsed_tree E spec (tree parser)"
    and "known_handlers spec" "json_groups E spec"
  shows "\<exists>r. parseStarGroup E parser g txt = Inr r"
proof (cases "map_of (tree parser) ''__all__''")
  case None
  then show ?thesis by (simp add: parseStarGroup_def)
next
  case (Some grp)
  from parser_ok_matcher [OF assms(1) Some] obtain m
    where m: "map_of (matchers parser) ''__all__'' = Some m" "built_for E grp m" by blast
  from built_for_returns [OF m(2)] obtain n rs where r: "Match E m txt = Inr (n, rs)" by blast
  show ?thesis
    using Some m r group_handled [OF assms Some m(1)]
    by (cases rs) (fastforce simp: parseStarGroup_def)+
qed

lemma map_sum_eq_Inr: "map_sum f g x = Inr y \<longleftrightarrow> (\<exists>z. x = Inr z \<and> y = g z)"
  by (cases x) auto

lemma call_handler_event:
  assumes "call_handler E p rs (new_Event ty g) = Inr (Inr (Some ev))"
  shows "\<exists>h. Handler p = Some h \<and> Type ev = ty \<and> Process ev = g \<and> Severity ev = handler_severity h"
proof -
  from assms obtain h where h: "Handler p = Some h"
    and "HandleEvent E h rs (new_Event ty g) = Inr (Inr ev)"
    by (auto simp: call_handler_def go_bind_eq_Inr map_sum_eq_Inr split: option.splits)
  with handler.handle_new_Event [of E h rs ty g ev] show ?thesis by blast
qed

text \<open>Where an event of group \<open>g\<close> comes from.\<close>

definition event_origin ::
    "'re sieve_env \<Rightarrow> config_spec \<Rightarrow> string \<Rightarrow> string \<Rightarrow> Event \<Rightarrow> bool" where
  "event_origin E spec g txt ev \<longleftrightarrow>
     (\<exists>d evt r. map_of spec g = Some d \<and> map_of d (Type ev) = Some evt \<and>
        spec_Substring evt \<noteq> [] \<and> (\<exists>a b. txt = a @ spec_Substring evt @ b) \<and>
        MustCompile E (spec_Re evt) = Some r \<and> FindStringSubmatch E r txt \<noteq> None \<and>
        Severity ev = (if spec_Severity evt = [] then ''INFO'' else spec_Severity evt))"

lemma group_event:
  assumes ok: "parser_ok E parser" "parsed_tree E spec (tree parser)"
    and g: "map_of (tree parser) g = Some grp" "map_of (matchers parser) g = Some m"
    and hit: "Match E m txt = Inr (n, Some rs)" and p: "map_of grp n = Some p"
    and ev: "call_handler E p rs (new_Event n proc) = Inr (Inr (Some ev))"
  shows "event_origin E spec g txt ev \<and> Process ev = proc"
proof -
  from parser_ok_matcher [OF ok(1) g(1)] g(2) have "built_for E grp m" by simp
  from built_for_hit [OF this hit] p obtain r
    where b: "Substring p \<noteq> []" "\<exists>a b. txt = a @ Substring p @ b"
      "MustCompile E (Re p) = Some r" "FindStringSubmatch E r txt = Some rs"
    by auto
  from spec_lookup [OF ok(2) g(1) p] obtain d evt
    where d: "map_of spec g = Some d" "map_of d n = Some evt" "ToEventParser E evt = Inr p" by blast
  from call_handler_event [OF ev] obtain h
    where h: "Handler p = Some h" "Type ev = n" "Process ev = proc" "Severity ev = handler_severity h"
    by blast
  note f = ToEventParser_fields [OF d(3)]
  from f(4) [OF h(1)] h b d f(1,2) show ?thesis by (auto simp: event_origin_def)
qed

lemma parseStarGroup_event:
  assumes "parser_ok E parser" "parsed_tree E spec (tree parser)"
    and "parseStarGroup E parser g txt = Inr (Inr (Some ev))"
  shows "event_origin E spec ''__all__'' txt ev \<and> Process ev = g"
proof -
  from assms(3) obtain grp m n rs p
    where "map_of (tree parser) ''__all__'' = Some grp" "map_of (matchers parser) ''__all__'' = Some m"
      "Match E m txt = Inr (n, Some rs)" "map_of grp n = Some p"
      and "call_handler E p rs (new_Event n g) = Inr (Inr (Some ev))"
    by (auto simp: parseStarGroup_def go_bind_eq_Inr split: option.splits)
  then show ?thesis by (rule group_event [OF assms(1,2)])
qed

text \<open>Two parsers with the same tree and matchers that answer alike parse alike.\<close>

lemma Parse_cong:
  assumes "tree p1 = tree p2"
    and "\<And>g grp. map_of (tree p1) g = Some grp \<Longrightarrow> \<exists>m1 m2. map_of (matchers p1) g = Some m1 \<and>
      map_of (matchers p2) g = Some m2 \<and> (\<forall>txt. Match E m1 txt = Match E m2 txt)"
  shows "Parse E p1 g txt = Parse E p2 g txt"
proof -
  have "parseStarGroup E p1 g txt = parseStarGroup E p2 g txt"
    using assms(1) assms(2) [of "''__all__''"]
    by (fastforce simp: parseStarGroup_def split: option.split)
  then show ?thesis
    using assms(1) assms(2) [of g] by (fastforce simp: Parse_def split: option.split)
qed

lemma built_for_order_independent:
  assumes "built_for E grp m" and "built_for E grp m'" and "prefix_free (map (Substring \<circ> snd) grp)"
  shows "Match E m txt = Match E m' txt"
proof -
  from assms(1,2) obtain es alts es' alts'
    where b: "built E es alts m" "built E es' alts' m'" and s: "set es = set (entries grp)" "set es' = set es"
    unfolding built_for_def by (metis mset_eq_setD)
  have "set (map (fst \<circ> snd) es) = set (map (Substring \<circ> snd) grp)"
    using s(1) by (force simp: entries_def)
  with assms(3) have "prefix_free (map (fst \<circ> snd) es)" by (simp add: prefix_free_def)
  from Match_order_independent [OF b s(2) [symmetric] this] show ?thesis .
qed

lemma parsed_group_substrings:
  "parsed_group E d grp \<Longrightarrow> map (Substring \<circ> snd) grp = map (spec_Substring \<circ> snd) d"
  unfolding parsed_group_def
  by (induction d grp rule: list_all2_induct) (auto dest: ToEventParser_fields(1))

section \<open>Properties\<close>

text \<open>A small configuration for the witnesses, read with the literal engine.\<close>

definition demo_env :: "string sieve_env" where
  "demo_env = \<lparr>MustCompile = Some,
     FindStringSubmatch = (\<lambda>r txt. map_option (\<lambda>s. [s, r]) (find_alt [r] txt)),
     tmpl_api = \<lparr>OtherTemplate = (\<lambda>_. None), Fprint = (\<lambda>_. [])\<rparr>,
     UnmarshalInfo = (\<lambda>s. Inr [(''text'', JString s)])\<rparr>"

definition demo_spec :: config_spec where
  "demo_spec =
     [(''kernel'', [(''oom'', \<lparr>spec_Substring = ''oom-killer'', spec_Re = ''invoked oom'', spec_Sample = [],
         spec_Format = ''OOM: $1'', spec_Severity = ''WARNING'', spec_HandlerType = []\<rparr>)]),
      (''__all__'', [(''error'', \<lparr>spec_Substring = ''ERROR'', spec_Re = ''ERROR --'', spec_Sample = [],
         spec_Format = ''$0'', spec_Severity = [], spec_HandlerType = ''json''\<rparr>)])]"

definition demo_orders :: orders where
  "demo_orders = \<lparr>ord_tree = rev, ord_group = id, ord_substrings = rev\<rparr>"

lemma demo_spec_ok:
  "spec_wf demo_spec" "orders_ok demo_orders" "known_handlers demo_spec" "json_groups demo_env demo_spec"
  by (auto simp: spec_wf_def demo_spec_def orders_ok_def demo_orders_def known_handlers_def
      json_groups_def demo_env_def rearranges_def)

lemmas parser_eval =
  NewStackatoParser_def demo_env_def demo_orders_def demo_spec_def ToEventParser_def
  NewSimpleEventHandler_def NewJsonEventHandler_def simpleTemplate_def tmpl_Parse_def Must_def
  parser_Build_def build_group_def NewParser_def MustAdd_def matcher_Build_def
  NewMultiRegexpMatcher_def replace_index.simps parse_nodes.simps HasPrefix_def parse_action_def
  canonical_def is_digit_def digit_val_def dec_val_def special_def Let_def

lemma demo_parses:
  "\<exists>p. NewStackatoParser demo_env demo_orders demo_spec = Inr p"
  "\<exists>p. NewStackatoParser demo_env (demo_orders\<lparr>ord_tree := id\<rparr>) demo_spec = Inr p"
  by (simp_all add: parser_eval)

lemma Parse_returns:
  assumes "spec_wf spec" and "orders_ok O'" and "NewStackatoParser E O' spec = Inr parser"
    and "known_handlers spec" and "json_groups E spec"
  shows "\<exists>r. Parse E parser g txt = Inr r"
proof -
  from NewStackatoParser_ok [OF assms(1-3)]
  have ok: "parser_ok E parser" "parsed_tree E spec (tree parser)" by simp_all
  from parseStarGroup_returns [OF ok assms(4,5)] obtain star
    where star: "parseStarGroup E parser g txt = Inr star" by blast
  show ?thesis
  proof (cases "map_of (tree parser) g")
    case None
    with star show ?thesis by (simp add: Parse_def)
  next
    case (Some grp)
    from parser_ok_matcher [OF ok(1) Some] obtain m
      where m: "map_of (matchers parser) g = Some m" "built_for E grp m" by blast
    from built_for_returns [OF m(2)] obtain n rs where "Match E m txt = Inr (n, rs)" by blast
    then show ?thesis
      using Some m star group_handled [OF ok assms(4,5) Some m(1)]
      by (cases rs) (fastforce simp: Parse_def)+
  qed
qed


text \<open>Forgetting the samples changes nothing the parser does.\<close>

lemma map_of_mapped: "map_of (map (map_prod id f) xs) k = map_option f (map_of xs k)"
  by (induction xs) auto

lemma tree_DeleteSamples:
  "map_of (tree (DeleteSamples p)) g =
     map_option (map (map_prod id (\<lambda>q. q\<lparr>Sample := []\<rparr>))) (map_of (tree p) g)"
  by (simp add: DeleteSamples_def map_of_mapped)

lemma call_handler_Sample [simp]: "call_handler E (p\<lparr>Sample := s\<rparr>) rs ev = call_handler E p rs ev"
  by (simp add: call_handler_def)

lemma call_handler_forgets [simp]:
  "(\<lambda>p. call_handler E p rs ev) \<circ> (\<lambda>q. q\<lparr>Sample := []\<rparr>) = (\<lambda>p. call_handler E p rs ev)"
  by (simp add: fun_eq_iff)

lemma matchers_DeleteSamples [simp]: "matchers (DeleteSamples p) = matchers p"
  by (simp add: DeleteSamples_def)

lemma Parse_DeleteSamples: "Parse E (DeleteSamples p) g txt = Parse E p g txt"
proof -
  have star: "parseStarGroup E (DeleteSamples p) g txt = parseStarGroup E p g txt"
    by (simp add: parseStarGroup_def tree_DeleteSamples map_of_mapped case_map_option comp_def cong: option.case_cong prod.case_cong)
  show ?thesis
    by (simp add: Parse_def star tree_DeleteSamples map_of_mapped case_map_option comp_def cong: option.case_cong prod.case_cong)
qed

text \<open>
  \<open>Parse\<close> never reaches its \<open>panic("not reachable")\<close> lines, nor a nil pointer: for every
  configuration whose handler types are known and whose JSON regexes have a group, the parser
  returns an event, no event or an error for every record.
\<close>

theorem Parse_never_panics:
  assumes "spec_wf spec" and "orders_ok O'" and "NewStackatoParser E O' spec = Inr parser"
    and "known_handlers spec" and "json_groups E spec"
  shows "\<exists>r. Parse E parser g txt = Inr r"
  using Parse_returns [OF assms] .

theorem Parse_never_panics_witness:
  "\<exists>p. NewStackatoParser demo_env demo_orders demo_spec = Inr p \<and>
     (\<exists>r. Parse demo_env p ''kernel'' ''uwsgi invoked oom-killer'' = Inr r)"
  using demo_parses(1) Parse_never_panics [OF demo_spec_ok(1,2) _ demo_spec_ok(3,4)] by blast

text \<open>
  C9. An event the parser returns was configured: its process is the record's, its type is an event
  of the record's own group or of \<open>__all__\<close> whose substring occurs in the text and whose regex
  matches it, and its severity is the configured one, \<open>INFO\<close> by default.
\<close>

theorem Parse_event_is_configured:
  assumes "spec_wf spec" and "orders_ok O'" and "NewStackatoParser E O' spec = Inr parser"
    and "Parse E parser g txt = Inr (Inr (Some ev))"
  shows "Process ev = g \<and> (event_origin E spec g txt ev \<or> event_origin E spec ''__all__'' txt ev)"
proof -
  from NewStackatoParser_ok [OF assms(1-3)]
  have ok: "parser_ok E parser" "parsed_tree E spec (tree parser)" by simp_all
  note star = parseStarGroup_event [OF ok]
  show ?thesis
  proof (cases "map_of (tree parser) g")
    case None
    with assms(4) star show ?thesis by (simp add: Parse_def)
  next
    case (Some grp)
    from parser_ok_matcher [OF ok(1) Some] obtain m
      where m: "map_of (matchers parser) g = Some m" "built_for E grp m" by blast
    with assms(4) Some star group_event [OF ok Some m(1), where proc = g] show ?thesis
      by (fastforce simp: Parse_def go_bind_eq_Inr split: option.splits)
  qed
qed

lemma demo_parse:
  assumes "NewStackatoParser demo_env demo_orders demo_spec = Inr p"
  shows "\<exists>ev. Parse demo_env p ''kernel'' ''uwsgi invoked oom-killer'' = Inr (Inr (Some ev)) \<and>
    Type ev = ''oom'' \<and> Desc ev = ''OOM: invoked oom''"
proof -
  have "\<exists>ev. go_bind (NewStackatoParser demo_env demo_orders demo_spec)
      (\<lambda>p. Parse demo_env p ''kernel'' ''uwsgi invoked oom-killer'') = Inr (Inr (Some ev)) \<and>
    Type ev = ''oom'' \<and> Desc ev = ''OOM: invoked oom''"
    by (simp add: parser_eval Parse_def Match_def FindString_def find_alt.simps call_handler_def
        new_Event_def)
  with assms show ?thesis by simp
qed

theorem Parse_event_is_configured_witness:
  "\<exists>p ev. NewStackatoParser demo_env demo_orders demo_spec = Inr p \<and>
     Parse demo_env p ''kernel'' ''uwsgi invoked oom-killer'' = Inr (Inr (Some ev)) \<and>
     Process ev = ''kernel'' \<and> Type ev = ''oom''"
proof -
  obtain p where p: "NewStackatoParser demo_env demo_orders demo_spec = Inr p"
    using demo_parses(1) by blast
  from demo_parse [OF p] Parse_event_is_configured [OF demo_spec_ok(1,2) p] p show ?thesis by blast
qed

text \<open>
  C11. When no substring of a group is a prefix of another one of that group, two starts of the
  program, which visit the maps of the same configuration in different orders, classify every record
  alike.
\<close>

theorem Parse_ignores_map_orders:
  assumes "spec_wf spec" and "orders_ok O1" and "orders_ok O2"
    and "NewStackatoParser E O1 spec = Inr p1" and "NewStackatoParser E O2 spec = Inr p2"
    and "\<forall>(g, d) \<in> set spec. prefix_free (map (spec_Substring \<circ> snd) d)"
  shows "Parse E p1 g txt = Parse E p2 g txt"
proof -
  from assms(4) obtain t where t: "parser_Build E O1 (NewParser t) = Inr p1"
    "parser_Build E O2 (NewParser t) = Inr p2" "parsed_tree E spec t"
    using assms(5) outer_loop [OF _ assms(1)]
    by (fastforce simp: NewStackatoParser_def go_bind_eq_Inr)
  have "distinct (map fst t)"
    using assms(1) list_all2_names [OF t(3) [unfolded parsed_tree_def]] by (simp add: spec_wf_def)
  from parser_Build_ok [OF assms(2) this t(1)] parser_Build_ok [OF assms(3) this t(2)]
  have ok: "parser_ok E p1" "tree p1 = t" "parser_ok E p2" "tree p2 = t" by simp_all
  show ?thesis
  proof (rule Parse_cong)
    fix h grp assume g: "map_of (tree p1) h = Some grp"
    from list_all2_lookup [OF t(3) [unfolded parsed_tree_def]] g ok(2) obtain d
      where d: "map_of spec h = Some d" "parsed_group E d grp" by blast
    have pf: "prefix_free (map (Substring \<circ> snd) grp)"
      using assms(6) d map_of_SomeD [OF d(1)] parsed_group_substrings [OF d(2)] by auto
    from parser_ok_matcher [OF ok(1) g] parser_ok_matcher [OF ok(3), of h grp] g ok
      built_for_order_independent [OF _ _ pf]
    show "\<exists>m1 m2. map_of (matchers p1) h = Some m1 \<and> map_of (matchers p2) h = Some m2 \<and>
        (\<forall>txt. Match E m1 txt = Match E m2 txt)" by metis
  qed (simp add: ok)
qed

theorem Parse_ignores_map_orders_witness:
  "\<exists>p1 p2. NewStackatoParser demo_env demo_orders demo_spec = Inr p1 \<and>
     NewStackatoParser demo_env (demo_orders\<lparr>ord_tree := id\<rparr>) demo_spec = Inr p2 \<and>
     Parse demo_env p1 ''sshd'' ''ERROR -- x'' = Parse demo_env p2 ''sshd'' ''ERROR -- x''"
proof -
  obtain p1 where p1: "NewStackatoParser demo_env demo_orders demo_spec = Inr p1"
    using demo_parses(1) by blast
  obtain p2 where p2: "NewStackatoParser demo_env (demo_orders\<lparr>ord_tree := id\<rparr>) demo_spec = Inr p2"
    using demo_parses(2) by blast
  have o2: "orders_ok (demo_orders\<lparr>ord_tree := id\<rparr>)"
    using demo_spec_ok(2) by (simp add: orders_ok_def rearranges_def)
  have pf: "\<forall>(g, d) \<in> set demo_spec. prefix_free (map (spec_Substring \<circ> snd) d)"
    by (simp add: demo_spec_def prefix_free_def)
  from Parse_ignores_map_orders [OF demo_spec_ok(1,2) o2 p1 p2 pf] p1 p2 show ?thesis by blast
qed

text \<open>
  C27. The description of a simple event is its format with every \<open>$N\<close> replaced by the \<open>N\<close>-th regex
  group; a group that does not exist is an error, and nothing else of the event but its severity
  changes.
\<close>

theorem simple_handler_substitutes:
  assumes "simple_format fmt"
  shows "\<exists>h. NewSimpleEventHandler E sev fmt = Inr h \<and>
    HandleEvent E h rs ev = Inr (case subst_groups rs fmt of
      Inl e \<Rightarrow> Inl (''error in custom event handler '' @ Type ev @ ''; '' @ e)
    | Inr out \<Rightarrow> Inr (ev\<lparr>Desc := out, Severity := sev\<rparr>))"
  using simpleTemplate_simple [OF assms, of "tmpl_api E"]
  by (auto simp: NewSimpleEventHandler_def split: sum.split)

theorem simple_handler_substitutes_witness:
  "simple_format ''Process '$1' stopped ($2)'' \<and>
   (\<exists>h. NewSimpleEventHandler demo_env ''WARNING'' ''Process '$1' stopped ($2)'' = Inr h \<and>
      (\<exists>ev. HandleEvent demo_env h [''all'', ''dea'', ''by KILL''] (new_Event ''stop'' ''supervisord'') =
          Inr (Inr ev) \<and> Desc ev = ''Process 'dea' stopped (by KILL)''))"
proof -
  have f: "simple_format ''Process '$1' stopped ($2)''"
    by (simp add: simple_format.simps parser_eval)
  have s: "subst_groups [''all'', ''dea'', ''by KILL''] ''Process '$1' stopped ($2)'' =
      Inr ''Process 'dea' stopped (by KILL)''"
    by (simp add: subst_groups.simps parser_eval)
  show ?thesis
    using f s simple_handler_substitutes [OF f, of demo_env "''WARNING''" "[''all'', ''dea'', ''by KILL'']"
      "new_Event ''stop'' ''supervisord''"]
    by auto
qed

text \<open>
  A configuration entry with an unknown handler type is accepted, and every record its regex
  matches then panics.
\<close>

theorem unknown_handler_panics:
  assumes "spec_HandlerType evt \<notin> {[], ''simple'', ''json''}"
  shows "\<exists>p. ToEventParser E evt = Inr p \<and>
    call_handler E p rs ev = Inl (Panic ''nil pointer dereference'')"
  using assms by (auto simp: ToEventParser_def Let_def call_handler_def)

theorem unknown_handler_panics_witness:
  "\<exists>p. ToEventParser demo_env \<lparr>spec_Substring = ''x'', spec_Re = ''x'', spec_Sample = [], spec_Format = [],
        spec_Severity = [], spec_HandlerType = ''JSON''\<rparr> = Inr p \<and>
     call_handler demo_env p [''x''] (new_Event ''e'' ''g'') = Inl (Panic ''nil pointer dereference'')"
  by (rule unknown_handler_panics) simp

text \<open>
  The length check of the JSON handler is off by one: a regex that matches but has no group
  makes the handler panic instead of returning its error.
\<close>

theorem json_handler_without_group_panics:
  "HandleEvent E (JsonEventHandler tmpl sev) [m] ev = Inl (Panic ''index out of range'') \<and>
   HandleEvent E (JsonEventHandler tmpl sev) [] ev = Inr (Inl ''no regex matches found'')"
  by simp

end
