(* ===== verification/Systail.thy ===== *)
theory Systail
  imports Sieve_Parser App_Log
begin

text \<open>
  The two programs of the system log: \<open>systail\<close> (\<open>systail/message.go\<close>, \<open>config.go\<close> and
  \<open>cmd/systail/main.go\<close>) publishes the lines of the system's log files, \<open>logyard_sieve\<close>
  (\<open>sieve/cmd/logyard_sieve\<close>) turns those it recognises into events.  The tail library is known
  through the lines it delivers and the errors of its calls.
\<close>

section \<open>systail.Message\<close>

record sys_message =
  SName :: string
  SCommon :: MessageCommon

definition sys_json :: "sys_message \<Rightarrow> json" where
  "sys_json m = JObj ((''name'', jstr (SName m)) # common_json (SCommon m))"

definition sys_fields :: "sys_message field list" where
  "sys_fields =
     (''name'', string_field (\<lambda>s r. r\<lparr>SName := s\<rparr>))
     # embed SCommon (\<lambda>q r. r\<lparr>SCommon := q\<rparr>) common_fields"

definition zero_sys_message :: sys_message where
  "zero_sys_message = \<lparr>SName = [], SCommon = zero_MessageCommon\<rparr>"

definition sys_Marshal :: "sys_message \<Rightarrow> err \<times> payload" where
  "sys_Marshal m = (None, Doc (sys_json m))"

lemma sys_roundtrip:
  "Unmarshal sys_fields (Doc (sys_json m)) zero_sys_message =
     (None, \<lparr>SName = clean (SName m), SCommon = clean_common (SCommon m)\<rparr>)"
  by (simp add: Unmarshal_def Unmarshal_struct_def sys_json_def common_json_def sys_fields_def
      common_fields_def embed_def member_def matches_def lower_def first_err_def struct_field_def
      syslog_fields_def syslog_json_def zero_sys_message_def
      zero_MessageCommon_def clean_common_def clean_syslog_def)

section \<open>systail\<close>

record sys_Config =
  SysMaxRecordSize :: int64
  SysLogFiles :: "(string \<times> string) list"

definition log_path :: "string \<Rightarrow> string \<Rightarrow> string" where
  "log_path name filepath = (if filepath = [] then ''/s/logs/'' @ name @ ''.log'' else filepath)"

text \<open>
  The goroutine of \<open>tailLogFile\<close> over the lines; the second component of the result is the reason
  it killed the tailer with.
\<close>

fun tail_lines ::
    "(sys_message \<Rightarrow> err \<times> payload) \<Rightarrow> string \<Rightarrow> string \<Rightarrow> tail_line list \<Rightarrow> broker \<Rightarrow> broker \<times> err" where
  "tail_lines marshal name nodeid [] pub = (pub, None)"
| "tail_lines marshal name nodeid (line # lines) pub =
     (let tx = (if \<not> ValidString (LText line) then string_of (runes (LText line)) else LText line) in
      case marshal \<lparr>SName = name, SCommon = NewMessageCommon tx (LTime line) nodeid\<rparr> of
        (Some e, _) \<Rightarrow> (pub, Some (''Failed to encode to JSON: '' @ e))
      | (None, data) \<Rightarrow>
          tail_lines marshal name nodeid lines
            (pub_MustPublish (''systail.'' @ name @ ''.'' @ nodeid) data pub))"

text \<open>\<open>tailLogFile\<close> up to the goroutine: the path tailed from its end, or the error.\<close>

definition tailLogFile :: "(string \<Rightarrow> int64 \<times> int \<Rightarrow> err) \<Rightarrow> string \<Rightarrow> string \<Rightarrow> string + string" where
  "tailLogFile open_tail name filepath =
     (let filepath = log_path name filepath in
      case open_tail filepath (0, 2) of Some e \<Rightarrow> Inl e | None \<Rightarrow> Inr filepath)"

text \<open>The part of \<open>main\<close> that starts the tailers, in the order \<open>perm\<close> of the configured files.\<close>

definition start_tailers ::
    "(string \<Rightarrow> int64 \<times> int \<Rightarrow> err) \<Rightarrow> ((string \<times> string) list \<Rightarrow> (string \<times> string) list) \<Rightarrow>
     sys_Config \<Rightarrow> (string \<times> string) list go" where
  "start_tailers open_tail perm c =
     (let logFiles = SysLogFiles c in
      if length logFiles = 0 then Inl (Exit ''No log files exist in configuration.'')
      else go_fold (\<lambda>(name, logfile) tailers.
             case tailLogFile open_tail name logfile of
               Inl e \<Rightarrow> Inl (Exit e)
             | Inr path \<Rightarrow> Inr (tailers @ [(name, path)])) (perm logFiles) [])"

definition systail_LoadConfig :: "string + sys_Config \<Rightarrow> sys_Config go" where
  "systail_LoadConfig r = load_config ''Unable to load systail config; '' r"

text \<open>
  All of \<open>main\<close>: \<open>localip\<close> is what \<open>server.LocalIP\<close> returns; when every tailer has ended, which the
  code does not expect, the process exits.  The goroutines of the tailers are run one after the
  other, which is one of their interleavings; the order within one file is the same in all.
\<close>

definition systail_main ::
    "string + sys_Config \<Rightarrow> string + string \<Rightarrow> (string \<Rightarrow> int64 \<times> int \<Rightarrow> err) \<Rightarrow>
     ((string \<times> string) list \<Rightarrow> (string \<times> string) list) \<Rightarrow>
     ((string \<times> string) \<Rightarrow> tail_line list) \<Rightarrow> broker \<Rightarrow> broker \<times> stop" where
  "systail_main cfg localip open_tail perm delivered pub =
     (case go_bind (systail_LoadConfig cfg) (\<lambda>c.
             case localip of
               Inl e \<Rightarrow> Inl (Exit (''Failed to determine IP addr: '' @ e))
             | Inr nodeid \<Rightarrow>
                 go_bind (start_tailers open_tail perm c) (\<lambda>tailers. Inr (nodeid, tailers))) of
        Inl e \<Rightarrow> (pub, e)
      | Inr (nodeid, tailers) \<Rightarrow>
          (fold (\<lambda>t pub. fst (tail_lines sys_Marshal (fst t) nodeid (delivered t) pub)) tailers pub,
           Exit ''No file left to tail; exiting.''))"

section \<open>logyard_sieve\<close>

definition sieve_LoadConfig :: "string + config_spec \<Rightarrow> config_spec go" where
  "sieve_LoadConfig r = load_config ''Unable to load logyard_sieve config; '' r"

text \<open>One iteration of the loop over the messages; \<open>at\<close> is \<open>time.Unix(_, 0)\<close>.\<close>

definition sieve_message ::
    "'re sieve_env \<Rightarrow> (int64 \<Rightarrow> GoTime) \<Rightarrow> 're Parser \<Rightarrow> payload \<Rightarrow> broker \<Rightarrow> broker go" where
  "sieve_message E at parser message pub =
     (case Unmarshal sys_fields message zero_sys_message of
        (Some e, _) \<Rightarrow> Inr pub
      | (None, record) \<Rightarrow>
          go_bind (Parse E parser (SName record) (Text (SCommon record))) (\<lambda>r.
            case r of
              Inl err \<Rightarrow> Inr pub
            | Inr None \<Rightarrow> Inr pub
            | Inr (Some event) \<Rightarrow>
                event_MustPublish event_Marshal
                  (event\<lparr>Common := NewMessageCommon (Desc event) (at (UnixTime (SCommon record)))
                                     (NodeID (SCommon record))\<rparr>) pub))"

text \<open>
  \<open>main\<close>, with what \<open>NewConfig\<close> returns and the messages of the subscription; the broker it yields is
  what was published when the last of them is done.
\<close>

definition sieve_main ::
    "'re sieve_env \<Rightarrow> orders \<Rightarrow> (int64 \<Rightarrow> GoTime) \<Rightarrow> string + config_spec \<Rightarrow> payload list \<Rightarrow> broker \<Rightarrow> broker go" where
  "sieve_main E O' at cfg messages pub =
     go_bind (sieve_LoadConfig cfg) (\<lambda>events.
     go_bind (NewStackatoParser E O' events) (\<lambda>parser.
       go_fold (sieve_message E at (DeleteSamples parser)) messages pub))"

section \<open>What is published\<close>

definition sys_entry :: "string \<Rightarrow> string \<Rightarrow> tail_line \<Rightarrow> string \<times> payload" where
  "sys_entry name nodeid line =
     (''systail.'' @ name @ ''.'' @ nodeid,
      Doc (sys_json \<lparr>SName = name, SCommon = NewMessageCommon (LText line) (LTime line) nodeid\<rparr>))"

lemma tail_lines_ok:
  "tail_lines sys_Marshal name nodeid lines pub = (pub @ map (sys_entry name nodeid) lines, None)"
proof (induction lines arbitrary: pub)
  case (Cons line lines)
  have "sys_json \<lparr>SName = name, SCommon = NewMessageCommon (clean (LText line)) (LTime line) nodeid\<rparr> =
      sys_json \<lparr>SName = name, SCommon = NewMessageCommon (LText line) (LTime line) nodeid\<rparr>"
    by (simp add: sys_json_def common_json_def NewMessageCommon_def jstr_def)
  with Cons show ?case
    by (simp add: Let_def sys_Marshal_def pub_MustPublish_def sys_entry_def clean_def)
qed simp

definition sieve_event ::
    "'re sieve_env \<Rightarrow> (int64 \<Rightarrow> GoTime) \<Rightarrow> 're Parser \<Rightarrow> string \<Rightarrow> string \<Rightarrow> tail_line \<Rightarrow> broker go" where
  "sieve_event E at parser name nodeid line =
     go_bind (Parse E parser (clean name) (clean (LText line))) (\<lambda>r. Inr (case r of
       Inr (Some event) \<Rightarrow>
         [(event_key event, Doc (event_json (event\<lparr>Common :=
            NewMessageCommon (Desc event) (at (Unix (LTime line))) (clean nodeid)\<rparr>)))]
     | _ \<Rightarrow> []))"

lemma sieve_message_line:
  "sieve_message E at (DeleteSamples parser) (snd (sys_entry name nodeid line)) pub =
     go_bind (sieve_event E at parser name nodeid line) (\<lambda>evs. Inr (pub @ evs))"
  by (auto simp: sieve_message_def sys_entry_def sys_roundtrip sieve_event_def Parse_DeleteSamples
      clean_common_def go_bind_def event_MustPublish_def event_Marshal_def pub_MustPublish_def event_key_def
      split: sum.split option.split)

section \<open>Properties\<close>

text \<open>
  C6. From a system log line to its event: what \<open>logyard_sieve\<close> publishes for the lines \<open>systail\<close>
  published is, line by line and in order, the event the parser finds in the line (repaired to
  valid UTF-8), with the time and the node of the line; a line without an event publishes nothing.
\<close>

theorem sieve_follows_systail:
  assumes "NewStackatoParser E O' spec = Inr parser"
    and "\<And>line. line \<in> set lines \<Longrightarrow> sieve_event E at parser name nodeid line = Inr (evs line)"
  shows "sieve_main E O' at (Inr spec) (map snd (fst (tail_lines sys_Marshal name nodeid lines []))) pub =
    Inr (pub @ concat (map evs lines))"
proof -
  have "go_fold (sieve_message E at (DeleteSamples parser))
      (map (\<lambda>line. snd (sys_entry name nodeid line)) lines) pub = Inr (pub @ concat (map evs lines))"
    using assms(2) by (induction lines arbitrary: pub) (simp_all add: sieve_message_line)
  then show ?thesis by (simp add: sieve_main_def sieve_LoadConfig_def assms(1) tail_lines_ok comp_def)
qed

definition demo_sys_line :: tail_line where
  "demo_sys_line = \<lparr>LText = ''uwsgi invoked oom-killer'',
     LTime = \<lparr>Unix = 5, Format = (\<lambda>_. ''now'')\<rparr>, LErr = None\<rparr>"

lemma clean_demo: "clean ''kernel'' = ''kernel''" "clean ''uwsgi invoked oom-killer'' = ''uwsgi invoked oom-killer''"
  by (rule clean_valid, rule ValidString_ascii, simp)+

theorem sieve_follows_systail_witness:
  "\<exists>ev. sieve_main demo_env demo_orders (\<lambda>_. LTime demo_sys_line) (Inr demo_spec)
       (map snd (fst (tail_lines sys_Marshal ''kernel'' ''n1'' [demo_sys_line] []))) [] =
     Inr [(''event.oom'', Doc (event_json ev))]"
proof -
  let ?at = "\<lambda>_::int64. LTime demo_sys_line"
  obtain p where p: "NewStackatoParser demo_env demo_orders demo_spec = Inr p"
    using demo_parses(1) by blast
  from demo_parse [OF p] obtain ev
    where ev: "Parse demo_env p ''kernel'' ''uwsgi invoked oom-killer'' = Inr (Inr (Some ev))"
      "Type ev = ''oom''"
    by blast
  let ?ev = "ev\<lparr>Common := NewMessageCommon (Desc ev) (LTime demo_sys_line) (clean ''n1'')\<rparr>"
  have "sieve_event demo_env ?at p ''kernel'' ''n1'' demo_sys_line = Inr [(''event.oom'', Doc (event_json ?ev))]"
    using ev by (simp add: sieve_event_def clean_demo demo_sys_line_def event_key_def)
  then have "sieve_event demo_env ?at p ''kernel'' ''n1'' line =
      Inr ((\<lambda>_. [(''event.oom'', Doc (event_json ?ev))]) line)" if "line \<in> set [demo_sys_line]" for line
    using that by simp
  from sieve_follows_systail [where lines = "[demo_sys_line]" and pub = "[]", OF p this]
  show ?thesis by (auto simp del: tail_lines.simps)
qed

lemma sieve_returns:
  assumes "spec_wf spec" and "orders_ok O'" and "NewStackatoParser E O' spec = Inr parser"
    and "known_handlers spec" and "json_groups E spec"
  shows "\<exists>out. sieve_main E O' at (Inr spec) messages pub = Inr out \<and> prefix pub out"
proof -
  have "\<exists>out. sieve_message E at (DeleteSamples parser) m p = Inr out \<and> prefix p out" for m p
  proof (cases "Unmarshal sys_fields m zero_sys_message")
    case (Pair e r)
    obtain x where "Parse E parser (SName r) (Text (SCommon r)) = Inr x"
      using Parse_returns [OF assms] by blast
    with Pair show ?thesis
      by (cases e) (auto simp: sieve_message_def Parse_DeleteSamples event_MustPublish_def
          event_Marshal_def pub_MustPublish_def split: sum.split option.split)
  qed
  then have "\<exists>out. go_fold (sieve_message E at (DeleteSamples parser)) messages pub = Inr out \<and> prefix pub out"
    by (intro go_fold_total [where I = "prefix pub"]) (simp, meson prefix_order.trans)
  with assms(3) show ?thesis by (simp add: sieve_main_def sieve_LoadConfig_def)
qed

text \<open>
  C8. \<open>logyard_sieve\<close> keeps running: with known handler types and JSON regexes that have a group, no
  sequence of messages, whether records or not, makes its loop panic or exit.
\<close>

theorem sieve_never_stops:
  assumes "spec_wf spec" and "orders_ok O'" and "NewStackatoParser E O' spec = Inr parser"
    and "known_handlers spec" and "json_groups E spec"
  shows "\<exists>out. sieve_main E O' at (Inr spec) messages pub = Inr out \<and> prefix pub out"
  using sieve_returns [OF assms] .

theorem sieve_never_stops_witness:
  "\<exists>out. sieve_main demo_env demo_orders (\<lambda>_. LTime demo_sys_line) (Inr demo_spec)
     [Bytes ''not json'', snd (sys_entry ''kernel'' ''n1'' demo_sys_line)] [] = Inr out"
proof -
  obtain p where p: "NewStackatoParser demo_env demo_orders demo_spec = Inr p"
    using demo_parses(1) by blast
  show ?thesis
    using sieve_never_stops [OF demo_spec_ok(1,2) p demo_spec_ok(3,4)] by blast
qed

end
