(* ===== verification/Docker_Main.thy ===== *)
theory Docker_Main
  imports Docker_Events App_Log
begin

text \<open>
  The program \<open>docker_events/cmd/docker_events\<close>: what docker reports is published as events of the
  cloud.  The requests and the stream are those of the theory \<open>Docker_Events\<close>, publishing is that of
  \<open>App_Log\<close>.
\<close>

section \<open>The program\<close>

text \<open>\<open>init\<close> finds the address of the node, with which every event is marked.\<close>

definition docker_init :: "string + string \<Rightarrow> string go" where
  "docker_init localip =
     (case localip of
        Inl e \<Rightarrow> Inl (Exit (''Failed to determine IP addr: '' @ e))
      | Inr node \<Rightarrow> Inr node)"

definition publish_docker_event ::
    "(int64 \<Rightarrow> GoTime) \<Rightarrow> string \<Rightarrow> docker_event \<Rightarrow> broker \<Rightarrow> broker go" where
  "publish_docker_event at node event pub =
     event_MustPublish event_Marshal (SendToLogyard at node event) pub"

text \<open>
  The channel is unbuffered, so all events but the last are published when the goroutine of \<open>Stream\<close>
  ends.  If it ends in \<open>log.Fatal\<close>, \<open>late\<close> tells whether that happens before \<open>main\<close> has published the
  last one.
\<close>

definition relayed :: "bool \<Rightarrow> docker_event list \<Rightarrow> unit go \<Rightarrow> docker_event list" where
  "relayed late events end = (case end of Inl (Exit e) \<Rightarrow> if late then butlast events else events | _ \<Rightarrow> events)"

text \<open>What has been published, and how the process ended (or \<open>Blocked\<close>: it waits for docker).\<close>

definition docker_main ::
    "(int64 \<Rightarrow> GoTime) \<Rightarrow> string + string \<Rightarrow> get \<Rightarrow> decoded list \<Rightarrow> bool \<Rightarrow> broker \<Rightarrow> broker \<times> unit go" where
  "docker_main at localip get docs late pub =
     (case go_bind (docker_init localip) (\<lambda>node.
             go_bind (Stream get docs) (\<lambda>(events, end).
             go_bind (go_fold (publish_docker_event at node) (relayed late events end) pub) (\<lambda>pub.
               Inr (pub, end)))) of
        Inl e \<Rightarrow> (pub, Inl e)
      | Inr r \<Rightarrow> r)"

section \<open>Lemmas\<close>

definition docker_entry :: "(int64 \<Rightarrow> GoTime) \<Rightarrow> string \<Rightarrow> docker_event \<Rightarrow> string \<times> payload" where
  "docker_entry at node event =
     (''event.'' @ Status event, Doc (event_json (SendToLogyard at node event)))"

lemma publish_docker_event_ok [op_simps]:
  "publish_docker_event at node event pub = Inr (pub @ [docker_entry at node event])"
  by (simp add: publish_docker_event_def event_MustPublish_def event_Marshal_def pub_MustPublish_def
      docker_entry_def event_key_def SendToLogyard_def Let_def)

lemma publish_docker_events:
  "go_fold (publish_docker_event at node) events pub = Inr (pub @ map (docker_entry at node) events)"
  by (induction events arbitrary: pub) (simp_all add: op_simps)

lemma docker_main_eq:
  "docker_main at (Inr node) get docs late pub =
     (case getDockerEvents get 3 of
        Inl e \<Rightarrow> (pub, Inl e)
      | Inr res \<Rightarrow> (pub @ map (docker_entry at node) (relayed late (fst (stream_events docs)) (snd (stream_events docs))),
                    snd (stream_events docs)))"
  by (simp add: docker_main_def docker_init_def Stream_def publish_docker_events case_prod_unfold
      split: sum.split)

lemma stream_events_append:
  "stream_events (map Document events @ docs) =
     (events @ fst (stream_events docs), snd (stream_events docs))"
  by (induction events) (simp_all add: case_prod_unfold)

text \<open>Whoever receives the entry of a docker event reads the event that was sent.\<close>

lemma docker_entry_decodes:
  "Unmarshal event_fields (snd (docker_entry at node event)) zero_Event =
     (None, clean_event (SendToLogyard at node event))"
  by (simp add: docker_entry_def event_roundtrip SendToLogyard_def Let_def)

section \<open>Properties\<close>

text \<open>
  C29. Every event docker reports is published once, in order, under \<open>event.<status>\<close>, and a subscriber
  decodes exactly the event that was built from it; when docker ends the stream the program ends
  normally.  If the stream breaks, at most the last event before it is lost, and the process exits.
\<close>

theorem docker_events_relayed:
  assumes "getDockerEvents get 3 = Inr res"
  shows "docker_main at (Inr node) get (map Document events @ EOF # docs) late pub =
      (pub @ map (docker_entry at node) events, Inr ()) \<and>
    docker_main at (Inr node) get (map Document events @ DecodeError e # docs) late pub =
      (pub @ map (docker_entry at node) (if late then butlast events else events), Inl (Exit e)) \<and>
    Unmarshal event_fields (snd (docker_entry at node event)) zero_Event =
      (None, clean_event (SendToLogyard at node event))"
  by (simp add: docker_main_eq assms stream_events_append relayed_def docker_entry_decodes)

theorem docker_events_relayed_witness:
  "docker_main (\<lambda>_. \<lparr>Unix = 5, Format = (\<lambda>_. ''now'')\<rparr>) (Inr ''n1'')
     (\<lambda>i. if i < 2 then (None, Some ''refused'') else (Some (None, []), None))
     [Document \<lparr>Id = ''c1'', Status = ''die'', From = ''img'', Time = 5\<rparr>, EOF] False [] =
   ([docker_entry (\<lambda>_. \<lparr>Unix = 5, Format = (\<lambda>_. ''now'')\<rparr>) ''n1''
       \<lparr>Id = ''c1'', Status = ''die'', From = ''img'', Time = 5\<rparr>], Inr ())"
proof -
  have "getDockerEvents (\<lambda>i. if i < 2 then (None, Some ''refused'') else (Some (None, []), None)) 3 =
      Inr (Some (None, []))"
    by (simp add: getDockerEvents_def getDockerEvents_from.simps)
  from docker_events_relayed [OF this, where events = "[\<lparr>Id = ''c1'', Status = ''die'', From = ''img'', Time = 5\<rparr>]"
      and docs = "[]" and pub = "[]"]
  show ?thesis by simp
qed

end
