(* ===== verification/Published.thy ===== *)
theory Published
  imports Systail Instance Docker_Main
begin

text \<open>
  The records on the broker have a type: a key says what a subscriber may decode.  This theory states
  the type and shows that every operation of the programs that publishes keeps it.
\<close>

section \<open>The type of a record\<close>

text \<open>All strings of a document are valid UTF-8, the names of members included.\<close>

fun json_ok :: "json \<Rightarrow> bool" where
  "json_ok (JString s) = ValidString s"
| "json_ok (JArr js) = (\<forall>j \<in> set js. json_ok j)"
| "json_ok (JObj kvs) = (\<forall>kv \<in> set kvs. ValidString (fst kv) \<and> json_ok (snd kv))"
| "json_ok _ = True"

definition members_ok :: "(string \<times> json) list \<Rightarrow> bool" where
  "members_ok kvs \<longleftrightarrow> distinct (map fst kvs) \<and> json_ok (JObj kvs)"

text \<open>
  The members of a record of an application's log.  The programs of this repository decode the records
  of the other kinds, and must be able to: the sieve those of \<open>systail\<close>, and \<open>MonitorCloudEvents\<close> the
  events that match its subscription, whose information it decodes once more.
\<close>

definition app_members :: "string list" where
  "app_members = [''filename'', ''source'', ''instance_index'', ''app_guid'', ''app_name'', ''app_space'',
     ''text'', ''node_id'', ''unix_time'', ''human_time'', ''syslog'']"

definition timeline_info :: "(string \<times> json) list \<Rightarrow> bool" where
  "timeline_info kvs \<longleftrightarrow> fst (Unmarshal timeline_fields (Doc (info_json kvs)) zero_TimelineEvent) = None"

definition timeline_ok :: "payload \<Rightarrow> bool" where
  "timeline_ok p \<longleftrightarrow> timeline_info (Info (snd (Unmarshal event_fields p zero_Event)))"

definition for_monitor :: "string \<times> payload \<Rightarrow> bool" where
  "for_monitor r \<longleftrightarrow> HasPrefix (fst r) ''event.timeline''"

definition typed :: "string \<times> payload \<Rightarrow> bool" where
  "typed r \<longleftrightarrow>
     (\<exists>kvs. snd r = Doc (JObj kvs) \<and> members_ok kvs \<and>
        (HasPrefix (fst r) ''event.'' \<longrightarrow> fst (Unmarshal event_fields (snd r) zero_Event) = None) \<and>
        (for_monitor r \<longrightarrow> timeline_ok (snd r)) \<and>
        (HasPrefix (fst r) ''systail.'' \<longrightarrow> fst (Unmarshal sys_fields (snd r) zero_sys_message) = None) \<and>
        (HasPrefix (fst r) ''apptail.'' \<longrightarrow> map fst kvs = app_members))"

abbreviation typed_broker :: "broker \<Rightarrow> bool" where
  "typed_broker \<equiv> list_all typed"

section \<open>The encoders\<close>

lemma ValidString_ok: "\<forall>c \<in> set s. (of_char c :: nat) < 128 \<Longrightarrow> ValidString s"
  by (rule ValidString_ascii) simp

lemma json_ok_parts [simp]: "json_ok (jstr s)" "json_ok (jint w)" "json_ok (syslog_json m)"
  by (simp_all add: jstr_def jint_def syslog_json_def ValidString_ok)

lemma common_ok: "kv \<in> set (common_json m) \<Longrightarrow> ValidString (fst kv) \<and> json_ok (snd kv)"
  by (auto simp: common_json_def ValidString_ok)

lemma info_ok: "members_ok m \<Longrightarrow> json_ok (info_json m)"
  by (simp add: info_json_def members_ok_def)

lemma common_names: "map fst (common_json m) = [''text'', ''node_id'', ''unix_time'', ''human_time'', ''syslog'']"
  by (simp add: common_json_def)

lemma event_keys: "HasPrefix k ''event.'' \<Longrightarrow> \<not> HasPrefix k ''systail.'' \<and> \<not> HasPrefix k ''apptail.''"
  by (cases k) (auto simp: HasPrefix_eval)

lemma no_info [simp]: "timeline_info []"
  by (simp add: timeline_info_def info_json_def Unmarshal_def Unmarshal_struct_def)

lemma event_typed:
  assumes "members_ok (Info e)" and "HasPrefix k ''event.''"
    and "HasPrefix k ''event.timeline'' \<Longrightarrow> timeline_info (iface_members (Info e))"
  shows "typed (k, Doc (event_json e))"
proof -
  have "distinct (map fst (Info e))" using assms(1) by (simp add: members_ok_def)
  note r = event_roundtrip [OF this]
  have "timeline_ok (Doc (event_json e))" if "HasPrefix k ''event.timeline''"
    using assms(3) [OF that] r by (simp add: timeline_ok_def clean_event_def)
  with r common_ok [of _ "Common e"] info_ok [OF assms(1)] event_keys [OF assms(2)]
  show ?thesis
    by (auto simp: typed_def event_json_def members_ok_def common_names ValidString_ok HasPrefix_eval
        for_monitor_def)
qed

lemma message_typed: "typed (''apptail.'' @ g, Doc (message_json m))"
  using common_ok [of _ "MCommon m"]
  by (auto simp: typed_def message_json_def members_ok_def common_names app_members_def ValidString_ok
      HasPrefix_eval for_monitor_def)

lemma sys_typed: "typed (''systail.'' @ n, Doc (sys_json m))"
proof -
  have "fst (Unmarshal sys_fields (Doc (sys_json m)) zero_sys_message) = None"
    by (simp add: sys_roundtrip)
  with common_ok [of _ "SCommon m"] show ?thesis
    by (auto simp: typed_def sys_json_def members_ok_def common_names ValidString_ok HasPrefix_eval
        for_monitor_def)
qed

section \<open>The operations\<close>

text \<open>What the documentation of \<open>json.Unmarshal\<close> says of a map: distinct keys and valid strings.\<close>

definition decodes_members :: "'re sieve_env \<Rightarrow> bool" where
  "decodes_members E \<longleftrightarrow> (\<forall>s kvs. UnmarshalInfo E s = Inr kvs \<longrightarrow> members_ok kvs)"

text \<open>
  What the sieve puts into an event is what the decoder made of a text, for an event that is configured
  as a JSON event.
\<close>

definition json_event :: "config_spec \<Rightarrow> string \<Rightarrow> bool" where
  "json_event spec n \<longleftrightarrow> (\<exists>(g, d) \<in> set spec. \<exists>(n', evt) \<in> set d. n' = n \<and> spec_HandlerType evt = ''json'')"

definition info_origin :: "'re sieve_env \<Rightarrow> config_spec \<Rightarrow> Event \<Rightarrow> bool" where
  "info_origin E spec ev \<longleftrightarrow> Info ev = [] \<or> json_event spec (Type ev) \<and> (\<exists>s. UnmarshalInfo E s = Inr (Info ev))"

lemma HandleEvent_info:
  "HandleEvent E h rs ev = Inr (Inr ev') \<Longrightarrow>
   Info ev' = Info ev \<or> handler_needs h = 2 \<and> (\<exists>s. UnmarshalInfo E s = Inr (Info ev'))"
  by (cases h) (auto split: sum.splits if_splits)

lemma call_handler_info:
  assumes tree: "parsed_tree E spec (tree parser)" "map_of (tree parser) g = Some grp" "map_of grp n = Some p"
    and ev: "call_handler E p rs (new_Event n proc) = Inr (Inr (Some ev))"
  shows "info_origin E spec ev"
proof -
  from ev obtain h where h: "Handler p = Some h" "HandleEvent E h rs (new_Event n proc) = Inr (Inr ev)"
    by (auto simp: call_handler_def go_bind_eq_Inr map_sum_eq_Inr split: option.splits)
  from spec_lookup [OF tree] obtain d evt
    where d: "(g, d) \<in> set spec" "(n, evt) \<in> set d" "ToEventParser E evt = Inr p" by blast
  have "Info (new_Event n proc) = []" "Type ev = n"
    using h handler.handle_new_Event [of E h rs n proc ev] by (simp_all add: new_Event_def)
  moreover have "handler_needs h = 2 \<Longrightarrow> json_event spec n"
    using ToEventParser_fields(5) [OF d(3) h(1)] d(1,2) by (force simp: json_event_def split: if_splits)
  ultimately show ?thesis using HandleEvent_info [OF h(2)] by (auto simp: info_origin_def)
qed

lemma parseStarGroup_info:
  "parsed_tree E spec (tree parser) \<Longrightarrow> parseStarGroup E parser g txt = Inr (Inr (Some ev)) \<Longrightarrow>
   info_origin E spec ev"
  by (auto simp: parseStarGroup_def go_bind_eq_Inr dest: call_handler_info split: option.split_asm)

lemma Parse_info:
  "parsed_tree E spec (tree parser) \<Longrightarrow> Parse E parser g txt = Inr (Inr (Some ev)) \<Longrightarrow> info_origin E spec ev"
  by (auto simp: Parse_def go_bind_eq_Inr dest: call_handler_info parseStarGroup_info split: option.split_asm)

text \<open>
  The condition under which the sieve keeps the type: a decoded text has distinct and valid members, as
  the documentation of \<open>json.Unmarshal\<close> says, and the texts of a JSON event that \<open>MonitorCloudEvents\<close>
  subscribes to are timeline events.
\<close>

definition timeline_texts :: "'re sieve_env \<Rightarrow> config_spec \<Rightarrow> bool" where
  "timeline_texts E spec \<longleftrightarrow> (\<forall>s kvs n. json_event spec n \<longrightarrow> HasPrefix n ''timeline'' \<longrightarrow>
     UnmarshalInfo E s = Inr kvs \<longrightarrow> timeline_info (iface_members kvs))"

lemma info_origin_ok:
  assumes "info_origin E spec ev" and "decodes_members E" and "timeline_texts E spec"
  shows "members_ok (Info ev)"
    and "HasPrefix (event_key ev) ''event.timeline'' \<Longrightarrow> timeline_info (iface_members (Info ev))"
proof -
  have "members_ok []" by (simp add: members_ok_def)
  with assms(1,2) show "members_ok (Info ev)" by (auto simp: info_origin_def decodes_members_def)
next
  assume "HasPrefix (event_key ev) ''event.timeline''"
  then have "HasPrefix (Type ev) ''timeline''" by (simp add: event_key_def HasPrefix_eval)
  with assms(1,3) show "timeline_info (iface_members (Info ev))"
    by (auto simp: info_origin_def timeline_texts_def)
qed

lemma event_MustPublish_typed:
  assumes "event_MustPublish event_Marshal e pub = Inr pub'" and "members_ok (Info e)"
    and "HasPrefix (event_key e) ''event.timeline'' \<Longrightarrow> timeline_info (iface_members (Info e))"
    and "typed_broker pub"
  shows "typed_broker pub'"
proof -
  have "typed (event_key e, Doc (event_json e))"
    using assms(2,3) by (intro event_typed) (simp_all add: event_key_def HasPrefix_eval)
  with assms(1,4) show ?thesis
    by (auto simp: event_MustPublish_def event_Marshal_def pub_MustPublish_def)
qed

lemma sieve_message_typed:
  assumes "sieve_message E at (DeleteSamples parser) m pub = Inr pub'" and "typed_broker pub"
    and "parsed_tree E spec (tree parser)" and "decodes_members E" and "timeline_texts E spec"
  shows "typed_broker pub'"
proof -
  obtain e r where u: "Unmarshal sys_fields m zero_sys_message = (e, r)" by fastforce
  show ?thesis
  proof (cases "\<exists>ev. Parse E parser (SName r) (Text (SCommon r)) = Inr (Inr (Some ev))")
    case True
    then obtain ev where ev: "Parse E parser (SName r) (Text (SCommon r)) = Inr (Inr (Some ev))" by blast
    note i = info_origin_ok [OF Parse_info [OF assms(3) ev] assms(4,5)]
    show ?thesis
    proof (cases e)
      case None
      with ev u assms(1) have "event_MustPublish event_Marshal
          (ev\<lparr>Common := NewMessageCommon (Desc ev) (at (UnixTime (SCommon r))) (NodeID (SCommon r))\<rparr>) pub = Inr pub'"
        by (simp add: sieve_message_def Parse_DeleteSamples)
      then show ?thesis
        by (rule event_MustPublish_typed) (use i assms(2) in \<open>simp_all add: event_key_def\<close>)
    qed (use u assms(1,2) in \<open>simp add: sieve_message_def\<close>)
  next
    case False
    with u assms(1,2) show ?thesis
      by (cases e; cases "Parse E parser (SName r) (Text (SCommon r))")
        (auto simp: sieve_message_def Parse_DeleteSamples split: option.split_asm sum.split_asm)
  qed
qed

lemma tail_lines_typed: "typed_broker pub \<Longrightarrow> typed_broker (fst (tail_lines sys_Marshal name nodeid lines pub))"
  using sys_typed by (auto simp: tail_lines_ok sys_entry_def list_all_iff)

lemma publish_docker_event_typed:
  "publish_docker_event at node evt pub = Inr pub' \<Longrightarrow> typed_broker pub \<Longrightarrow> typed_broker pub'"
  unfolding publish_docker_event_def
  by (erule event_MustPublish_typed) (simp_all add: SendToLogyard_def members_ok_def Let_def)

lemma publishLine_typed: "publishLine N inst name (Some line) pub = Inr pub' \<Longrightarrow> typed_broker pub \<Longrightarrow> typed_broker pub'"
  using message_typed by (auto simp: publishLine_ok app_log_entry_def)

lemma readFromTail_typed:
  "readFromTail N inst name f es tr pub = Inr (r, tr', pub') \<Longrightarrow> typed_broker pub \<Longrightarrow> typed_broker pub'"
proof (induction N inst name f es tr pub rule: readFromTail.induct)
  case (2 N inst name filename line off err es tr pub)
  then obtain l where "line = Some l"
    by (cases line) (auto simp: go_bind_eq_Inr publishLine_def publishLineAs_def)
  with 2 show ?case by (auto simp: go_bind_eq_Inr Let_def dest: publishLine_typed)
qed (auto simp: go_bind_eq_Inr)

lemma monitor_message_typed:
  "monitor_message N m pub = Inr pub' \<Longrightarrow> typed_broker pub \<Longrightarrow> typed_broker pub'"
  using message_typed
  by (auto simp: monitor_message_def PublishAppLog_def Publish_ok split: prod.splits option.splits)

lemma pubstep_typed:
  assumes "pubstep c a c'" and "typed_broker (out c)" and "HasPrefix (ch_key c) ''event.''"
    and "\<And>e. a = SendOn e \<Longrightarrow> members_ok (Info e) \<and> timeline_info (iface_members (Info e))"
  shows "typed_broker (out c')"
  using assms by (auto elim!: pubstepE simp: pub_MustPublish_def event_Marshal_def intro: event_typed)

section \<open>The loops over the operations\<close>

text \<open>
  Every program is a loop over an operation that publishes.  A publisher keeps the broker typed, and
  then so does its loop.
\<close>

locale publisher =
  fixes publish :: "'a \<Rightarrow> broker \<Rightarrow> broker go"
  assumes keeps: "publish x pub = Inr pub' \<Longrightarrow> typed_broker pub \<Longrightarrow> typed_broker pub'"
begin

lemma loop_keeps: "go_fold publish xs pub = Inr pub' \<Longrightarrow> typed_broker pub \<Longrightarrow> typed_broker pub'"
  by (induction xs arbitrary: pub) (auto simp: go_bind_eq_Inr dest: keeps)

end

interpretation docker: publisher "publish_docker_event at node" for at node
  by unfold_locales (rule publish_docker_event_typed)

interpretation monitor: publisher "monitor_message N" for N
  by unfold_locales (rule monitor_message_typed)

text \<open>The sieve is a publisher when its decoder returns what documents can hold.\<close>

lemma sieve_publisher:
  "parsed_tree E spec (tree parser) \<Longrightarrow> decodes_members E \<Longrightarrow> timeline_texts E spec \<Longrightarrow>
   publisher (sieve_message E at (DeleteSamples parser))"
  by (rule publisher.intro) (rule sieve_message_typed)

lemma sieve_main_typed:
  assumes "sieve_main E O' at (Inr spec) msgs pub = Inr pub'" and "typed_broker pub"
    and "spec_wf spec" and "orders_ok O'" and "decodes_members E" and "timeline_texts E spec"
  shows "typed_broker pub'"
proof -
  from assms(1) obtain parser where p: "NewStackatoParser E O' spec = Inr parser"
    and f: "go_fold (sieve_message E at (DeleteSamples parser)) msgs pub = Inr pub'"
    by (auto simp: sieve_main_def sieve_LoadConfig_def go_bind_eq_Inr)
  have "parsed_tree E spec (tree parser)" using NewStackatoParser_ok [OF assms(3,4) p] by simp
  from publisher.loop_keeps [OF sieve_publisher [OF this assms(5,6)] f assms(2)] show ?thesis .
qed

text \<open>What the type is for: no record that \<open>MonitorCloudEvents\<close> receives makes it exit.\<close>

lemma monitor_survives:
  assumes "typed r" and "for_monitor r"
  shows "\<exists>pub'. monitor_message N (snd r) pub = Inr pub'"
proof -
  have "HasPrefix (fst r) ''event.''"
    using assms(2) by (auto simp: for_monitor_def HasPrefix_iff)
  with assms obtain ev where e: "Unmarshal event_fields (snd r) zero_Event = (None, ev)"
    and "timeline_info (Info ev)"
    by (cases "Unmarshal event_fields (snd r) zero_Event") (auto simp: typed_def timeline_ok_def)
  then obtain t where "Unmarshal timeline_fields (Doc (info_json (Info ev))) zero_TimelineEvent = (None, t)"
    by (cases "Unmarshal timeline_fields (Doc (info_json (Info ev))) zero_TimelineEvent")
      (auto simp: timeline_info_def)
  with e show ?thesis by (simp add: monitor_message_def Let_def PublishAppLog_def Publish_ok)
qed

lemma monitor_loop_survives:
  "typed_broker pub \<Longrightarrow> \<exists>pub'. MonitorCloudEvents N (map snd (filter for_monitor pub)) sent = Inr pub'"
  unfolding MonitorCloudEvents_def
proof (induction pub arbitrary: sent)
  case (Cons r pub)
  with monitor_survives [of r N sent] show ?case by (cases "for_monitor r") auto
qed simp

interpretation tailer: publisher "\<lambda>line. publishLine N inst name (Some line)" for N inst name
  by unfold_locales (rule publishLine_typed)

lemma docker_main_typed:
  "typed_broker pub \<Longrightarrow> typed_broker (fst (docker_main at localip get docs late pub))"
  by (auto simp: docker_main_def go_bind_eq_Inr split: sum.split dest!: docker.loop_keeps)

lemma systail_main_typed:
  assumes "typed_broker pub"
  shows "typed_broker (fst (systail_main cfg localip open_tail perm delivered pub))"
proof -
  have "typed_broker (fold (\<lambda>t pub. fst (tail_lines sys_Marshal (fst t) nodeid (delivered t) pub)) ts pub)" for nodeid ts
    using assms by (induction ts arbitrary: pub) (simp_all add: tail_lines_typed)
  with assms show ?thesis by (simp add: systail_main_def split: sum.split prod.split)
qed

section \<open>Properties\<close>


definition clean_env :: "string sieve_env" where
  "clean_env = demo_env\<lparr>UnmarshalInfo := (\<lambda>s. Inr [(''text'', JString (clean s))])\<rparr>"

lemma clean_env_ok: "decodes_members clean_env" "timeline_texts clean_env spec"
  by (simp_all add: decodes_members_def clean_env_def members_ok_def ValidString_ok timeline_texts_def
      timeline_info_def iface_members_def info_json_def Unmarshal_def Unmarshal_struct_def member_def
      timeline_fields_def matches_def lower_def)


text \<open>
  The condition on the texts is needed: an event of type \<open>timeline\<close> whose \<open>app\<close> is a number is published
  without complaint, and \<open>MonitorCloudEvents\<close> exits on it, whatever else the event holds.
\<close>

theorem odd_timeline_event_stops_monitor:
  assumes "Type ev = ''timeline''" and "Info ev = [(''app'', JNum 5)]"
  shows "event_MustPublish event_Marshal ev pub = Inr (pub @ [(''event.timeline'', Doc (event_json ev))]) \<and>
    MonitorCloudEvents N (Doc (event_json ev) # msgs) sent = Inl (Exit (''Invalid timeline event: '' @ TypeError))"
proof -
  have "Unmarshal event_fields (Doc (event_json ev)) zero_Event = (None, clean_event ev)"
    by (rule event_roundtrip) (simp add: assms(2))
  moreover have "Unmarshal timeline_fields (Doc (info_json (Info (clean_event ev)))) zero_TimelineEvent =
      (Some TypeError, zero_TimelineEvent)"
    by (simp add: clean_event_def assms(2) iface_members_def float_json_def info_json_def Unmarshal_def
        Unmarshal_struct_def timeline_fields_def member_def matches_def lower_def struct_field_def first_err_def)
  ultimately show ?thesis
    by (simp add: MonitorCloudEvents_def monitor_message_def event_MustPublish_def event_Marshal_def
        pub_MustPublish_def event_key_def assms(1))
qed

theorem odd_timeline_event_stops_monitor_witness:
  "MonitorCloudEvents demo_node [Doc (event_json ((new_Event ''timeline'' ''app'')\<lparr>Info := [(''app'', JNum 5)]\<rparr>))] [] =
     Inl (Exit (''Invalid timeline event: '' @ TypeError))"
  using odd_timeline_event_stops_monitor
    [of "(new_Event ''timeline'' ''app'')\<lparr>Info := [(''app'', JNum 5)]\<rparr>" "[]" demo_node "[]" "[]"] by simp

end
