(* ===== verification/Endpoint.thy ===== *)
theory Endpoint
  imports Go_Strings Common
begin

text \<open>
  The websocket endpoint for application logs (\<open>applog_endpoint\<close>): request arguments
  (\<open>arguments.go\<close>), the websocket stream (\<open>wsutil\<close>), the temporary drain a session creates
  (\<open>drain\<close>), the two handlers (\<open>server.go\<close>, \<open>app.go\<close>) and the registration with the router
  (\<open>router.go\<close>, \<open>config\<close>).  The cloud controller, the websocket connection, the line server and
  logyard's drains are known through what their calls return.
\<close>

section \<open>Arguments\<close>

record Arguments =
  Token :: string
  GUID :: string
  Num :: int

record request =
  Authorization :: string
  var_guid :: string
  form_num :: string

definition Validate :: "Arguments \<Rightarrow> err" where
  "Validate args =
     (if Token args = [] then Some ''missing token''
      else if GUID args = [] then Some ''missing app guid''
      else if Num args < 0 then Some ''Num argument is negative''
      else None)"

definition ParseArguments :: "request \<Rightarrow> Arguments option \<times> err" where
  "ParseArguments r =
     (let args = \<lparr>Token = Authorization r, GUID = var_guid r, Num = 0\<rparr> in
      if form_num r = [] then (Some args, Validate args)
      else case Atoi (form_num r) of
        Inl e \<Rightarrow> (None, Some e)
      | Inr n \<Rightarrow> (let args = args\<lparr>Num := n\<rparr> in (Some args, Validate args)))"

section \<open>WebSocketStream\<close>

text \<open>
  A message is an error text and a value.  \<open>write_err i\<close> is the error of the \<open>i\<close>-th write; writing
  to a closed connection fails.
\<close>

record ws =
  sent :: "(string \<times> string) list"
  closed :: bool
  writes :: nat
  write_err :: "nat \<Rightarrow> err"

definition ws_send :: "string \<times> string \<Rightarrow> ws \<Rightarrow> err \<times> ws" where
  "ws_send data s =
     (if closed s then (Some ''use of closed connection'', s)
      else case write_err s (writes s) of
        Some e \<Rightarrow> (Some e, s\<lparr>writes := Suc (writes s)\<rparr>)
      | None \<Rightarrow> (None, s\<lparr>sent := sent s @ [data], writes := Suc (writes s)\<rparr>))"

definition Send :: "string \<Rightarrow> ws \<Rightarrow> err \<times> ws" where
  "Send value s = ws_send ([], value) s"

definition Fatalf :: "string \<Rightarrow> ws \<Rightarrow> ws" where
  "Fatalf msg s = (snd (ws_send (msg, []) s))\<lparr>closed := True\<rparr>"

text \<open>
  What the \<open>select\<close> of \<open>Forward\<close> receives: a line, the closing of the channel, or the second that
  passed, with the error of the ping.  The result is \<open>None\<close> while the loop goes on.
\<close>

datatype fwd = ChLine string | ChClosed | Second err

fun Forward :: "fwd list \<Rightarrow> ws \<Rightarrow> err option \<times> ws" where
  "Forward [] s = (None, s)"
| "Forward (ChLine line # es) s =
     (case Send line s of
        (Some e, s) \<Rightarrow> (Some (Some (''Closing websocket because of write error: '' @ e)), s)
      | (None, s) \<Rightarrow> Forward es s)"
| "Forward (ChClosed # es) s = (Some None, s)"
| "Forward (Second ping # es) s =
     (case (if closed s then Some ''use of closed connection'' else ping) of
        Some e \<Rightarrow> (Some (Some (''Closing websocket because of ping error: '' @ e)), s)
      | None \<Rightarrow> Forward es s)"

text \<open>\<open>ServeHTTP\<close> on a failed upgrade: the text of the response.\<close>

datatype upgrade_error = HandshakeError string | OtherUpgradeError string

definition upgrade_failed :: "upgrade_error \<Rightarrow> string" where
  "upgrade_failed err =
     (case err of
        OtherUpgradeError e \<Rightarrow> ''Handshake error: '' @ e
      | HandshakeError e \<Rightarrow> ''Unknown websocket error: '' @ e)"

section \<open>AppLogDrain\<close>

definition DRAIN_PREFIX :: string where "DRAIN_PREFIX = ''tmp.applog_endpoint''"
definition LINESERVER_PROTO :: string where "LINESERVER_PROTO = ''udp''"

text \<open>Logyard's drains: a state of its own and the two calls.\<close>

record 's logyard =
  AddDrain :: "string \<Rightarrow> string \<Rightarrow> 's \<Rightarrow> err \<times> 's"
  DeleteDrain :: "string \<Rightarrow> 's \<Rightarrow> err \<times> 's"
  Drains :: "'s \<Rightarrow> string list"
  ConstructDrainURI :: "string \<Rightarrow> string \<Rightarrow> string list \<Rightarrow> string + string"

record AppLogDrain =
  appGUID :: string
  port :: int
  lifetime :: int64
  drainName :: string

text \<open>
  \<open>new_server\<close> is the port of the new line server or the error of \<open>NewLineServer\<close> or \<open>GetUDPAddr\<close>,
  which are returned alike; \<open>duration\<close> is the result of \<open>ParseDuration\<close> on \<open>drain_lifetime\<close>.
\<close>

definition NewAppLogDrain :: "string + int \<Rightarrow> string + int64 \<Rightarrow> string \<Rightarrow> string + AppLogDrain" where
  "NewAppLogDrain new_server duration guid =
     (case new_server of
        Inl e \<Rightarrow> Inl e
      | Inr p \<Rightarrow>
          (case duration of
             Inl e \<Rightarrow> Inl (''Invalid duration value ('' @ e @ '') for drain_lifetime'')
           | Inr d \<Rightarrow> Inr \<lparr>appGUID = guid, port = p, lifetime = d,
                           drainName = DRAIN_PREFIX @ ''.'' @ guid\<rparr>))"

definition Id :: "AppLogDrain \<Rightarrow> string" where
  "Id d = drainName d @ ''<port:'' @ int_dec (port d) @ ''>''"

definition addDrain :: "'s logyard \<Rightarrow> string \<Rightarrow> AppLogDrain \<Rightarrow> 's \<Rightarrow> err \<times> 's" where
  "addDrain L ip d s =
     (let uri = LINESERVER_PROTO @ ''://'' @ ip @ '':'' @ int_dec (port d);
          filter = ''apptail.'' @ appGUID d in
      case ConstructDrainURI L (drainName d) uri [filter] of
        Inl e \<Rightarrow> (Some e, s)
      | Inr drainURI \<Rightarrow> AddDrain L (drainName d) drainURI s)"

definition removeDrain :: "'s logyard \<Rightarrow> AppLogDrain \<Rightarrow> 's \<Rightarrow> err \<times> 's" where
  "removeDrain L d s = DeleteDrain L (drainName d) s"

text \<open>
  \<open>Start\<close> returns the channel of the line server, or the nil channel \<open>None\<close> and an error.  The
  goroutine it leaves behind calls \<open>Stop\<close> if the lifetime is over before the server dies.
  \<open>Forward\<close> and that goroutine share nothing but the line server, so what the goroutine does to logyard
  while \<open>Forward\<close> runs is put after it (\<open>lifetime_over\<close>), before what the handler does next.
  \<open>Stop\<close> removes the drain, whose error is only logged, and kills the server.
\<close>

definition drain_Start :: "'s logyard \<Rightarrow> string \<Rightarrow> AppLogDrain \<Rightarrow> 'c \<Rightarrow> 's \<Rightarrow> ('c option \<times> err) \<times> 's" where
  "drain_Start L ip d ch s =
     (case addDrain L ip d s of
        (Some e, s) \<Rightarrow> ((None, Some e), s)
      | (None, s) \<Rightarrow> ((Some ch, None), s))"

definition Stop :: "'s logyard \<Rightarrow> AppLogDrain \<Rightarrow> 's \<Rightarrow> 's" where
  "Stop L d s = snd (removeDrain L d s)"

definition lifetime_over :: "'s logyard \<Rightarrow> AppLogDrain \<Rightarrow> bool \<Rightarrow> 's \<Rightarrow> 's" where
  "lifetime_over L d timed_out s = (if timed_out then Stop L d s else s)"

definition RemoveOrphanedDrains :: "'s logyard \<Rightarrow> 's \<Rightarrow> 's" where
  "RemoveOrphanedDrains L s =
     fold (\<lambda>name s. if HasPrefix name DRAIN_PREFIX then snd (DeleteDrain L name s) else s)
       (Drains L s) s"

section \<open>The handlers\<close>

text \<open>\<open>recentLogs\<close> asks the cloud controller, with the token and the number of lines.\<close>

type_synonym recent_logs = "string \<Rightarrow> string \<Rightarrow> int \<Rightarrow> string + string list"

fun send_lines :: "string list \<Rightarrow> ws \<Rightarrow> err \<times> ws" where
  "send_lines [] s = (None, s)"
| "send_lines (line # lines) s =
     (case Send line s of (Some e, s) \<Rightarrow> (Some e, s) | (None, s) \<Rightarrow> send_lines lines s)"

definition sendRecent :: "recent_logs \<Rightarrow> Arguments \<Rightarrow> ws \<Rightarrow> err \<times> ws" where
  "sendRecent recentLogs args s =
     (if Num args \<le> 0 then
        (case recentLogs (Token args) (GUID args) 1 of Inl e \<Rightarrow> (Some e, s) | Inr _ \<Rightarrow> (None, s))
      else
        (case recentLogs (Token args) (GUID args) (Num args) of
           Inl e \<Rightarrow> (Some e, s)
         | Inr logs \<Rightarrow> send_lines logs s))"

text \<open>What both handlers do first; \<open>None\<close> means the handler has returned.\<close>

definition authorize :: "recent_logs \<Rightarrow> request \<Rightarrow> ws \<Rightarrow> Arguments option \<times> ws" where
  "authorize recentLogs r s =
     (case ParseArguments r of
        (_, Some e) \<Rightarrow> (None, Fatalf (''Invalid arguments; '' @ e) s)
      | (None, None) \<Rightarrow> (None, s)
      | (Some args, None) \<Rightarrow>
          (case sendRecent recentLogs args s of
             (Some e, s) \<Rightarrow> (None, Fatalf e s)
           | (None, s) \<Rightarrow> (Some args, s)))"

definition recentHandlerWs :: "recent_logs \<Rightarrow> request \<Rightarrow> ws \<Rightarrow> ws" where
  "recentHandlerWs recentLogs r s = snd (authorize recentLogs r s)"

text \<open>
  The world of a tail session.  \<open>events\<close> is what \<open>Forward\<close> sees if the drain was started; the nil
  channel of a failed start never delivers, and the seconds alone are left.  \<open>timed_out\<close>: the
  lifetime was over before the handler stopped the drain.
\<close>

record 's session =
  api :: "'s logyard"
  local_ip :: string
  new_server :: "string + int"
  duration :: "string + int64"
  events :: "fwd list"
  timed_out :: bool

definition is_second :: "fwd \<Rightarrow> bool" where
  "is_second e \<longleftrightarrow> (case e of Second _ \<Rightarrow> True | _ \<Rightarrow> False)"

definition channel :: "fwd list option \<Rightarrow> fwd list \<Rightarrow> fwd list" where
  "channel ch es = (case ch of Some es \<Rightarrow> es | None \<Rightarrow> filter is_second es)"

text \<open>The result tells whether the handler has returned.\<close>

definition tailHandlerWs ::
    "recent_logs \<Rightarrow> 's session \<Rightarrow> request \<Rightarrow> ws \<Rightarrow> 's \<Rightarrow> bool \<times> ws \<times> 's" where
  "tailHandlerWs recentLogs W r s st =
     (case authorize recentLogs r s of
        (None, s) \<Rightarrow> (True, s, st)
      | (Some args, s) \<Rightarrow>
          (case NewAppLogDrain (new_server W) (duration W) (GUID args) of
             Inl e \<Rightarrow> (True, Fatalf (''Unable to create drain: '' @ e) s, st)
           | Inr d \<Rightarrow>
               (let ((ch, err), st) = drain_Start (api W) (local_ip W) d (events W) st;
                    s = (case err of
                           Some e \<Rightarrow> Fatalf (''Unable to start drain: '' @ e) s
                         | None \<Rightarrow> s)
                in case Forward (channel ch (events W)) s of
                     (None, s) \<Rightarrow> (False, s, st)
                   | (Some (Some e), s) \<Rightarrow> (True, s, Stop (api W) d (lifetime_over (api W) d (ch \<noteq> None \<and> timed_out W) st))
                   | (Some None, s) \<Rightarrow> (True, s, lifetime_over (api W) d (ch \<noteq> None \<and> timed_out W) st))))"

section \<open>Router\<close>

definition COMPONENT :: string where "COMPONENT = ''websocket_endpoint''"
definition PORT :: int where "PORT = 5722"

definition getApplogEndpointUri :: "string \<Rightarrow> string \<Rightarrow> string" where
  "getApplogEndpointUri hostname endpoint =
     (if hostname = [] then Replace1 ''api.'' ''logs.'' endpoint else hostname)"

record routerRegisterInfo =
  Host :: string
  Port :: int
  URIs :: "string list"
  TagComponent :: string

definition newRouterRegisterInfo :: "string \<Rightarrow> string \<Rightarrow> string \<Rightarrow> routerRegisterInfo" where
  "newRouterRegisterInfo node_ip hostname endpoint =
     \<lparr>Host = node_ip, Port = PORT, URIs = [getApplogEndpointUri hostname endpoint],
      TagComponent = COMPONENT\<rparr>"

text \<open>
  What is published: each message is built from the configuration of its time (the address of the
  node, the host name and the endpoint of the cluster), one at the start and one per \<open>router.start\<close>.
\<close>

definition routerAdvertise :: "string \<times> string \<times> string \<Rightarrow> (string \<times> routerRegisterInfo) list" where
  "routerAdvertise = (\<lambda>(node_ip, hostname, endpoint).
     [(''router.register'', newRouterRegisterInfo node_ip hostname endpoint)])"

definition RouterMain ::
    "string \<times> string \<times> string \<Rightarrow> (string \<times> string \<times> string) list \<Rightarrow> (string \<times> routerRegisterInfo) list" where
  "RouterMain now starts = routerAdvertise now @ concat (map routerAdvertise starts)"

section \<open>Configuration\<close>

record endpoint_Config =
  DrainLifetime :: string
  Hostname :: string

definition endpoint_LoadConfig :: "string + endpoint_Config \<Rightarrow> endpoint_Config go" where
  "endpoint_LoadConfig r = load_config ''Unable to load applog_endpoint config; %v'' r"

text \<open>The stand-in of the unit tests (\<open>config/shim_mock.go\<close>): a nil \<open>ServerConfig\<close> has no configuration.\<close>

record 'c ServerConfig =
  cfg_group :: string
  cfg_config :: 'c

record ClusterConfig =
  MbusIp :: string
  ClusterEndpoint :: string

definition mock_NewConfig :: "string \<Rightarrow> 'c \<Rightarrow> 'c ServerConfig option \<times> err" where
  "mock_NewConfig grp c = (Some \<lparr>cfg_group = grp, cfg_config = c\<rparr>, None)"

definition mock_SetConfig :: "'c \<Rightarrow> 'c ServerConfig \<Rightarrow> 'c ServerConfig" where
  "mock_SetConfig c g = g\<lparr>cfg_config := c\<rparr>"

definition mock_GetConfig :: "'c ServerConfig option \<Rightarrow> 'c option" where
  "mock_GetConfig g = (case g of None \<Rightarrow> None | Some g \<Rightarrow> Some (cfg_config g))"

definition mock_NodeIPMust :: string where
  "mock_NodeIPMust = ''127.0.0.1''"

definition mock_GetClusterConfig :: "ClusterConfig option \<Rightarrow> ClusterConfig \<times> ClusterConfig option" where
  "mock_GetClusterConfig once =
     (case once of
        Some c \<Rightarrow> (c, once)
      | None \<Rightarrow> (let c = \<lparr>MbusIp = ''127.0.0.1'', ClusterEndpoint = ''127.0.0.1''\<rparr> in (c, Some c)))"

definition mock_init :: "endpoint_Config \<Rightarrow> endpoint_Config ServerConfig option go" where
  "mock_init zero =
     (case mock_NewConfig ''a'' zero of (c, Some e) \<Rightarrow> Inl (Panic e) | (c, None) \<Rightarrow> Inr c)"

text \<open>
  The test \<open>TestGetApplogEndpointUriCustom\<close> as a run of the stand-in: what is set is what is read,
  and a configured host name wins.
\<close>

lemma mock_custom_uri:
  "mock_init z = Inr (Some g) \<Longrightarrow> host \<noteq> [] \<Longrightarrow>
   mock_GetConfig (Some (mock_SetConfig (z\<lparr>Hostname := host\<rparr>) g)) = Some (z\<lparr>Hostname := host\<rparr>) \<and>
   getApplogEndpointUri host endpoint = host"
  by (simp add: mock_GetConfig_def mock_SetConfig_def getApplogEndpointUri_def)

section \<open>Lemmas\<close>

lemma ws_send_frame: "ws_send data s = (e, s') \<Longrightarrow>
    closed s' = closed s \<and> write_err s' = write_err s \<and>
    sent s' = (if e = None then sent s @ [data] else sent s)"
  by (auto simp: ws_send_def split: if_splits option.splits)

lemma Send_frame: "Send v s = (e, s') \<Longrightarrow>
    closed s' = closed s \<and> write_err s' = write_err s \<and>
    sent s' = (if e = None then sent s @ [([], v)] else sent s)"
  by (auto simp: Send_def dest: ws_send_frame)

lemma Fatalf_sent: "sent (Fatalf msg s) = sent s \<or> sent (Fatalf msg s) = sent s @ [(msg, [])]"
  by (cases "ws_send (msg, []) s") (auto simp: Fatalf_def dest!: ws_send_frame split: if_splits)

lemma Fatalf_closed [simp]: "closed (Fatalf msg s)"
  by (simp add: Fatalf_def)

text \<open>The lines a channel delivers before it is closed.\<close>

fun ch_lines :: "fwd list \<Rightarrow> string list" where
  "ch_lines [] = []"
| "ch_lines (ChLine l # es) = l # ch_lines es"
| "ch_lines (ChClosed # es) = []"
| "ch_lines (Second _ # es) = ch_lines es"

lemma Forward_lines:
  "Forward es s = (r, s') \<Longrightarrow> \<exists>ls. prefix ls (ch_lines es) \<and> sent s' = sent s @ map (Pair []) ls \<and>
     (r = None \<or> r = Some None \<longrightarrow> ls = ch_lines es)"
proof (induction es arbitrary: s)
  case (Cons e es)
  show ?case
  proof (cases e)
    case (ChLine line)
    obtain er s1 where send: "Send line s = (er, s1)" by fastforce
    show ?thesis
    proof (cases er)
      case None
      with Cons ChLine send obtain ls where "prefix ls (ch_lines es)" "sent s' = sent s1 @ map (Pair []) ls"
        "r = None \<or> r = Some None \<longrightarrow> ls = ch_lines es"
        by auto
      with ChLine None Send_frame [OF send] show ?thesis
        by (intro exI [of _ "line # ls"]) auto
    next
      case (Some x)
      with Cons.prems ChLine send Send_frame [OF send] show ?thesis
        by (intro exI [of _ "[]"]) auto
    qed
  next
    case (Second p)
    with Cons show ?thesis by (auto split: if_splits option.splits)
  qed (use Cons.prems in \<open>auto intro!: exI [of _ "[]"]\<close>)
qed auto

text \<open>On a closed connection \<open>Forward\<close> ends with an error at the first second that passes.\<close>

lemma Forward_closed:
  "closed s \<Longrightarrow> \<forall>e \<in> set es. is_second e \<Longrightarrow> es \<noteq> [] \<Longrightarrow> \<exists>e. Forward es s = (Some (Some e), s)"
  by (cases es) (auto simp: is_second_def split: fwd.splits)

text \<open>Without an answer of the cloud controller a handler returns at once.\<close>

lemma ParseArguments_ok: "ParseArguments r = (oa, None) \<Longrightarrow>
    \<exists>args. oa = Some args \<and> Token args = Authorization r \<and> GUID args = var_guid r"
  by (auto simp: ParseArguments_def Let_def split: if_splits sum.splits)

lemma authorize_fails:
  assumes "\<And>n. \<exists>e. recentLogs (Authorization r) (var_guid r) n = Inl e"
  shows "\<exists>msg. authorize recentLogs r s = (None, Fatalf msg s)"
proof (cases "ParseArguments r")
  case (Pair oa eo)
  show ?thesis
  proof (cases eo)
    case None
    with Pair ParseArguments_ok obtain args
      where args: "oa = Some args" "Token args = Authorization r" "GUID args = var_guid r" by blast
    have "\<exists>e. sendRecent recentLogs args s = (Some e, s)"
      using assms [of 1] assms [of "Num args"] args by (auto simp: sendRecent_def)
    with Pair None args show ?thesis by (auto simp: authorize_def)
  qed (use Pair in \<open>auto simp: authorize_def split: option.split\<close>)
qed

section \<open>Properties\<close>

definition demo_ws :: ws where
  "demo_ws = \<lparr>sent = [], closed = False, writes = 0, write_err = (\<lambda>_. None)\<rparr>"

text \<open>A registry of drains as a list of names and URIs, which accepts everything but a second drain of a name.\<close>

definition demo_logyard :: "(string \<times> string) list logyard" where
  "demo_logyard =
     \<lparr>AddDrain = (\<lambda>n u s. if n \<in> set (map fst s) then (Some ''exists'', s) else (None, (n, u) # s)),
      DeleteDrain = (\<lambda>n s. (None, filter (\<lambda>d. fst d \<noteq> n) s)),
      Drains = map fst, ConstructDrainURI = (\<lambda>n u f. Inr u)\<rparr>"

definition demo_session :: "(string \<times> string) list session" where
  "demo_session = \<lparr>api = demo_logyard, local_ip = ''10.0.0.1'', new_server = Inr 7, duration = Inr 9,
     events = [Second None], timed_out = False\<rparr>"

definition demo_request :: request where
  "demo_request = \<lparr>Authorization = ''tok'', var_guid = ''g1'', form_num = ''5''\<rparr>"

text \<open>
  C15. A session sees nothing before the cloud controller has accepted its token: if every request for
  the application's logs with that token fails, the tail handler returns having created no drain
  and sent no log line, only an error, and closes the connection.
\<close>

theorem tail_requires_authorization:
  assumes "\<And>n. \<exists>e. recentLogs (Authorization r) (var_guid r) n = Inl e"
  shows "\<exists>s'. tailHandlerWs recentLogs W r s st = (True, s', st) \<and> closed s' \<and>
    (sent s' = sent s \<or> (\<exists>e. sent s' = sent s @ [(e, [])]))"
proof -
  obtain msg where "authorize recentLogs r s = (None, Fatalf msg s)"
    using authorize_fails [of recentLogs r s] assms by blast
  then show ?thesis using Fatalf_sent [of msg s] by (auto simp: tailHandlerWs_def)
qed

theorem tail_requires_authorization_witness:
  "\<exists>s'. tailHandlerWs (\<lambda>_ _ _. Inl ''401'') demo_session demo_request demo_ws [] = (True, s', []) \<and> closed s'"
  using tail_requires_authorization [of "\<lambda>_ _ _. Inl ''401''" demo_request demo_session demo_ws "[]"] by blast

text \<open>
  C24. The lines of the drain reach the client unchanged, in order, each once: what \<open>Forward\<close> sends is
  always a prefix of the channel's lines, and all of them unless a write or a ping failed.
\<close>

theorem Forward_sends_in_order:
  assumes "Forward es s = (r, s')"
  shows "\<exists>ls. prefix ls (ch_lines es) \<and> sent s' = sent s @ map (Pair []) ls \<and>
    (r = None \<or> r = Some None \<longrightarrow> ls = ch_lines es)"
  using Forward_lines [OF assms] .

theorem Forward_sends_in_order_witness:
  "\<exists>s'. Forward [ChLine ''a'', Second None, ChLine ''b'', ChClosed] demo_ws = (Some None, s') \<and>
     sent s' = [([], ''a''), ([], ''b'')]"
proof -
  obtain s' where f: "Forward [ChLine ''a'', Second None, ChLine ''b'', ChClosed] demo_ws = (Some None, s')"
    by (simp add: demo_ws_def Send_def ws_send_def)
  from Forward_sends_in_order [OF f] f show ?thesis by (auto simp: demo_ws_def)
qed

text \<open>
  C31. The number of recent lines survives its trip through the URL: a request with a token, an
  application and \<open>num\<close> in decimal is understood as that number, and refused when it is negative.
\<close>

theorem num_roundtrip:
  assumes "Authorization r \<noteq> []" and "var_guid r \<noteq> []" and "in_i64 n"
  shows "ParseArguments (r\<lparr>form_num := int_dec n\<rparr>) =
    (Some \<lparr>Token = Authorization r, GUID = var_guid r, Num = n\<rparr>,
     if n < 0 then Some ''Num argument is negative'' else None)"
proof -
  have "int_dec n \<noteq> []" by (simp add: int_dec_def)
  with assms Atoi_int_dec [OF assms(3)] show ?thesis
    by (simp add: ParseArguments_def Validate_def Let_def)
qed

theorem num_roundtrip_witness:
  "ParseArguments (demo_request\<lparr>form_num := int_dec 120\<rparr>) =
     (Some \<lparr>Token = ''tok'', GUID = ''g1'', Num = 120\<rparr>, None)"
  using num_roundtrip [of demo_request 120] by (simp add: demo_request_def)

text \<open>The names whose deletion returns an error, when the names are deleted one after the other.\<close>

fun failed_deletes :: "'s logyard \<Rightarrow> string list \<Rightarrow> 's \<Rightarrow> string list" where
  "failed_deletes L [] s = []"
| "failed_deletes L (n # ns) s =
     (if fst (DeleteDrain L n s) = None then [] else [n]) @ failed_deletes L ns (snd (DeleteDrain L n s))"

lemma failed_deletes_subset: "set (failed_deletes L ns s) \<subseteq> set ns"
  by (induction L ns s rule: failed_deletes.induct) auto

lemma delete_drains:
  assumes "\<And>n s. Drains L (snd (DeleteDrain L n s)) =
      (if fst (DeleteDrain L n s) = None then filter (\<lambda>m. m \<noteq> n) (Drains L s) else Drains L s)"
    and "distinct ns"
  shows "Drains L (fold (\<lambda>n s. snd (DeleteDrain L n s)) ns s) =
    filter (\<lambda>m. m \<notin> set ns \<or> m \<in> set (failed_deletes L ns s)) (Drains L s)"
  using assms(2)
proof (induction ns arbitrary: s)
  case (Cons n ns)
  then have "n \<notin> set (failed_deletes L ns t)" for t using failed_deletes_subset [of L ns t] by auto
  with Cons show ?case by (auto simp: assms(1) intro!: filter_cong)
qed simp

text \<open>
  C33. At start-up the endpoint removes exactly the drains whose names begin with its prefix, but for
  those whose deletion returns an error, which is only logged; so a drain that a former session has left
  is gone unless its deletion failed.  Deleting removes the named drain and no other, or returns an error
  and removes none.
\<close>

theorem orphaned_drains_removed:
  assumes "\<And>n s. Drains L (snd (DeleteDrain L n s)) =
      (if fst (DeleteDrain L n s) = None then filter (\<lambda>m. m \<noteq> n) (Drains L s) else Drains L s)"
    and "distinct (Drains L s)" and "NewAppLogDrain server dur guid = Inr d"
    and "failed = failed_deletes L (filter (\<lambda>n. HasPrefix n DRAIN_PREFIX) (Drains L s)) s"
  shows "Drains L (RemoveOrphanedDrains L s) =
      filter (\<lambda>n. \<not> HasPrefix n DRAIN_PREFIX \<or> n \<in> set failed) (Drains L s) \<and>
    (drainName d \<in> set (Drains L (RemoveOrphanedDrains L s)) \<longrightarrow> drainName d \<in> set failed)"
proof -
  have "fold (\<lambda>name s. if HasPrefix name DRAIN_PREFIX then snd (DeleteDrain L name s) else s) ns s =
      fold (\<lambda>n s. snd (DeleteDrain L n s)) (filter (\<lambda>n. HasPrefix n DRAIN_PREFIX) ns) s" for ns s
    by (induction ns arbitrary: s) auto
  with assms(2) have "Drains L (RemoveOrphanedDrains L s) =
      filter (\<lambda>n. \<not> HasPrefix n DRAIN_PREFIX \<or> n \<in> set failed) (Drains L s)"
    by (auto simp: RemoveOrphanedDrains_def assms(4) delete_drains [OF assms(1)] intro!: filter_cong)
  moreover have "HasPrefix (drainName d) DRAIN_PREFIX"
    using assms(3) by (auto simp: NewAppLogDrain_def split: sum.splits)
  ultimately show ?thesis by simp
qed

text \<open>A registry that refuses to delete one of its drains.\<close>

definition stuck_logyard :: "(string \<times> string) list logyard" where
  "stuck_logyard = demo_logyard\<lparr>DeleteDrain := (\<lambda>n s.
     if n = ''tmp.applog_endpoint.g2'' then (Some ''busy'', s) else (None, filter (\<lambda>d. fst d \<noteq> n) s))\<rparr>"

theorem orphaned_drains_removed_witness:
  "map fst (RemoveOrphanedDrains stuck_logyard [(''tmp.applog_endpoint.g1'', ''u''),
     (''tmp.applog_endpoint.g2'', ''u''), (''loggly'', ''v'')]) = [''tmp.applog_endpoint.g2'', ''loggly'']"
proof -
  let ?s = "[(''tmp.applog_endpoint.g1'', ''u''), (''tmp.applog_endpoint.g2'', ''u''), (''loggly'', ''v'')]"
  let ?L = stuck_logyard
  have m: "map fst (filter (\<lambda>d. fst d \<noteq> n) s) = filter (\<lambda>m. m \<noteq> n) (map fst s)" for n :: string and s :: "(string \<times> string) list"
    by (induction s) auto
  have law: "Drains ?L (snd (DeleteDrain ?L n s)) =
      (if fst (DeleteDrain ?L n s) = None then filter (\<lambda>m. m \<noteq> n) (Drains ?L s) else Drains ?L s)" for n s
    by (simp add: stuck_logyard_def demo_logyard_def m)
  have d: "NewAppLogDrain (Inr 7) (Inr 9) ''g1'' = Inr \<lparr>appGUID = ''g1'', port = 7, lifetime = 9,
      drainName = DRAIN_PREFIX @ ''.g1''\<rparr>"
    by (simp add: NewAppLogDrain_def)
  have "distinct (Drains ?L ?s)" by (simp add: stuck_logyard_def demo_logyard_def)
  from orphaned_drains_removed [OF law this d refl] show ?thesis
    by (simp add: stuck_logyard_def demo_logyard_def DRAIN_PREFIX_def HasPrefix_eval)
qed

text \<open>
  Sessions for the same application disturb each other: their drains have the same name, so when
  one session stops, the drain of the other is gone, and its client receives nothing more.
\<close>

theorem sessions_share_drain:
  assumes "NewAppLogDrain server1 dur1 guid = Inr d1" and "NewAppLogDrain server2 dur2 guid = Inr d2"
    and "\<And>n s. n \<notin> set (Drains L (snd (DeleteDrain L n s)))"
  shows "drainName d1 = drainName d2 \<and> drainName d2 \<notin> set (Drains L (Stop L d1 s))"
proof -
  have "drainName d1 = drainName d2"
    using assms(1,2) by (auto simp: NewAppLogDrain_def split: sum.splits)
  with assms(3) show ?thesis by (metis Stop_def removeDrain_def)
qed

theorem sessions_share_drain_witness:
  "\<exists>d1 d2. NewAppLogDrain (Inr 7) (Inr 9) ''g1'' = Inr d1 \<and> NewAppLogDrain (Inr 8) (Inr 9) ''g1'' = Inr d2 \<and>
     drainName d2 \<notin> set (Drains demo_logyard (Stop demo_logyard d1 [(drainName d2, ''u'')]))"
proof -
  obtain d1 d2 where d: "NewAppLogDrain (Inr 7) (Inr 9) ''g1'' = Inr d1"
    "NewAppLogDrain (Inr 8) (Inr 9) ''g1'' = Inr d2"
    by (simp add: NewAppLogDrain_def)
  have "n \<notin> set (Drains demo_logyard (snd (DeleteDrain demo_logyard n s)))" for n s
    by (auto simp: demo_logyard_def)
  from sessions_share_drain [OF d this] d show ?thesis by blast
qed

text \<open>
  The handler does not stop when its drain cannot be started: it has told the client and closed
  the connection, but goes on forwarding from a nil channel until a ping fails a second later, and
  then removes the drain of that name, which it has not created.
\<close>

theorem failed_start_goes_on:
  assumes "authorize recentLogs r s = (Some args, s1)"
    and "NewAppLogDrain (new_server W) (duration W) (GUID args) = Inr d"
    and "addDrain (api W) (local_ip W) d st = (Some e, st1)"
    and "filter is_second (events W) \<noteq> []"
  shows "tailHandlerWs recentLogs W r s st =
      (True, Fatalf (''Unable to start drain: '' @ e) s1, Stop (api W) d st1)"
proof -
  obtain e' where "Forward (filter is_second (events W)) (Fatalf (''Unable to start drain: '' @ e) s1) =
      (Some (Some e'), Fatalf (''Unable to start drain: '' @ e) s1)"
    using Forward_closed [OF Fatalf_closed _ assms(4)] by auto
  with assms show ?thesis
    by (simp add: tailHandlerWs_def drain_Start_def channel_def lifetime_over_def)
qed

theorem failed_start_goes_on_witness:
  "\<exists>s'. tailHandlerWs (\<lambda>_ _ _. Inr []) demo_session demo_request demo_ws [(''tmp.applog_endpoint.g1'', ''u'')] =
     (True, s', [])"
proof -
  let ?st = "[(''tmp.applog_endpoint.g1'', ''u'')]"
  let ?d = "\<lparr>appGUID = ''g1'', port = 7, lifetime = 9, drainName = ''tmp.applog_endpoint.g1''\<rparr>"
  obtain args where a: "authorize (\<lambda>_ _ _. Inr []) demo_request demo_ws = (Some args, demo_ws)"
    and g: "GUID args = ''g1''"
    by (auto simp: authorize_def ParseArguments_def demo_request_def Atoi_def HasPrefix_eval
        is_digit_def Validate_def sendRecent_def Let_def)
  have d: "NewAppLogDrain (new_server demo_session) (duration demo_session) (GUID args) = Inr ?d"
    by (simp add: NewAppLogDrain_def demo_session_def g DRAIN_PREFIX_def)
  have "addDrain (api demo_session) (local_ip demo_session) ?d ?st = (Some ''exists'', ?st)"
    by (simp add: addDrain_def demo_session_def demo_logyard_def Let_def)
  from failed_start_goes_on [OF a d this] show ?thesis
    by (simp add: demo_session_def is_second_def Stop_def removeDrain_def demo_logyard_def)
qed

text \<open>The default name of the endpoint, as in the test of the repository.\<close>

lemma endpoint_uri_default: "getApplogEndpointUri [] (''api.'' @ domain) = ''logs.'' @ domain"
  by (simp only: getApplogEndpointUri_def simp_thms if_True) (rule Replace1_head, simp)

end
