(* ===== verification/Endpoint_Server.thy ===== *)
theory Endpoint_Server
  imports Endpoint
begin

text \<open>
  The endpoint as a server: \<open>Serve\<close> of \<open>applog_endpoint/server.go\<close> and \<open>app.go\<close>, \<open>ServeHTTP\<close> of
  \<open>wsutil/handler.go\<close> and \<open>applog_endpoint/cmd/applog_endpoint\<close>.  The router library is known through
  which path matches which pattern, the upgrade through its result.
\<close>

section \<open>Requests\<close>

text \<open>\<open>GetLogsRaw\<close> of the REST client, by target, token and space.\<close>

definition recentLogs ::
    "(string \<Rightarrow> string \<Rightarrow> string \<Rightarrow> string \<Rightarrow> int \<Rightarrow> string + string list) \<Rightarrow> string \<Rightarrow> recent_logs" where
  "recentLogs GetLogsRaw endpoint tok guid num =
     (let targetUrl = ''https://'' @ endpoint; space = [] in GetLogsRaw targetUrl tok space guid num)"

text \<open>An answer without a session, or the session with whether its handler has returned.\<close>

datatype response = NotFound | HttpError int string | Session bool ws

definition ServeHTTP ::
    "upgrade_error + ws \<Rightarrow> (ws \<Rightarrow> 's \<Rightarrow> bool \<times> ws \<times> 's) \<Rightarrow> 's \<Rightarrow> response \<times> 's" where
  "ServeHTTP upgrade handler st =
     (case upgrade of
        Inl e \<Rightarrow> (HttpError 500 (upgrade_failed e), st)
      | Inr s \<Rightarrow>
          (case handler s st of
             (True, s, st) \<Rightarrow> (Session True (s\<lparr>closed := True\<rparr>), st)
           | (False, s, st) \<Rightarrow> (Session False s, st)))"

text \<open>\<open>Serve\<close>: the first pattern that matches decides; \<open>match_path\<close> yields the variable \<open>guid\<close>.\<close>

datatype handler_name = TailHandler | RecentHandler

definition routes :: "(string \<times> handler_name) list" where
  "routes = [(''/v2/apps/{guid}/tail'', TailHandler), (''/v2/apps/{guid}/recent'', RecentHandler)]"

definition route ::
    "(string \<Rightarrow> string \<Rightarrow> string option) \<Rightarrow> string \<Rightarrow> (handler_name \<times> string) option" where
  "route match_path path =
     (case find (\<lambda>r. match_path (fst r) path \<noteq> None) routes of
        None \<Rightarrow> None
      | Some (pat, h) \<Rightarrow> map_option (Pair h) (match_path pat path))"

record http_request =
  Path :: string
  auth_header :: string
  num_value :: string

definition request_of :: "http_request \<Rightarrow> string \<Rightarrow> request" where
  "request_of r guid = \<lparr>Authorization = auth_header r, var_guid = guid, form_num = num_value r\<rparr>"

definition run_handler ::
    "handler_name \<Rightarrow> recent_logs \<Rightarrow> 's session \<Rightarrow> request \<Rightarrow> ws \<Rightarrow> 's \<Rightarrow> bool \<times> ws \<times> 's" where
  "run_handler h logs W r s st =
     (case h of
        TailHandler \<Rightarrow> tailHandlerWs logs W r s st
      | RecentHandler \<Rightarrow> (True, recentHandlerWs logs r s, st))"

definition serve_request ::
    "(string \<Rightarrow> string \<Rightarrow> string option) \<Rightarrow> recent_logs \<Rightarrow> 's session \<Rightarrow> upgrade_error + ws \<Rightarrow>
     http_request \<Rightarrow> 's \<Rightarrow> response \<times> 's" where
  "serve_request match_path logs W upgrade r st =
     (case route match_path (Path r) of
        None \<Rightarrow> (NotFound, st)
      | Some (h, guid) \<Rightarrow> ServeHTTP upgrade (run_handler h logs W (request_of r guid)) st)"

text \<open>
  \<open>main\<close>: the drains left, the messages to the router, and the error of \<open>ListenAndServe\<close> the process
  ends with.  \<open>now\<close> and \<open>starts\<close> are the address and the endpoint of the cluster at each message.
\<close>

definition endpoint_main ::
    "string + endpoint_Config \<Rightarrow> 's logyard \<Rightarrow> string \<times> string \<Rightarrow> (string \<times> string) list \<Rightarrow> string \<Rightarrow>
     's \<Rightarrow> 's \<times> (string \<times> routerRegisterInfo) list \<times> stop" where
  "endpoint_main cfg L now starts serve_err s =
     (case endpoint_LoadConfig cfg of
        Inl e \<Rightarrow> (s, [], e)
      | Inr c \<Rightarrow>
          (let info = (\<lambda>(node_ip, endpoint). (node_ip, Hostname c, endpoint)) in
           (RemoveOrphanedDrains L s, RouterMain (info now) (map info starts), Exit serve_err)))"

section \<open>Lemmas\<close>

text \<open>A handler that got past \<open>authorize\<close> had an answer of the cloud controller for its token.\<close>

lemma sendRecent_asks:
  "sendRecent logs args s = (None, s') \<Longrightarrow> \<exists>n ls. logs (Token args) (GUID args) n = Inr ls"
  by (auto simp: sendRecent_def split: if_splits sum.splits)

lemma authorize_asks:
  assumes "authorize logs r s = (Some args, s')"
  shows "Authorization r \<noteq> [] \<and> var_guid r \<noteq> [] \<and> GUID args = var_guid r \<and>
    (\<exists>n ls. logs (Authorization r) (var_guid r) n = Inr ls)"
proof -
  from assms obtain s1 where p: "ParseArguments r = (Some args, None)"
    and s: "sendRecent logs args s = (None, s1)"
    by (auto simp: authorize_def split: prod.splits option.splits)
  from ParseArguments_ok [OF p] have a: "Token args = Authorization r" "GUID args = var_guid r" by auto
  from p have "Validate args = None"
    by (auto simp: ParseArguments_def Let_def split: if_splits sum.splits)
  then have "Token args \<noteq> []" "GUID args \<noteq> []" by (auto simp: Validate_def split: if_splits)
  with a sendRecent_asks [OF s] show ?thesis by auto
qed

lemma ServeHTTP_frame:
  assumes "\<And>s. \<exists>ret s'. handler s st = (ret, s', st)"
  shows "snd (ServeHTTP upgrade handler st) = st"
proof (cases upgrade)
  case (Inr s)
  obtain ret s' where "handler s st = (ret, s', st)" using assms by blast
  with Inr show ?thesis by (cases ret) (simp_all add: ServeHTTP_def)
qed (simp add: ServeHTTP_def)

lemma tailHandlerWs_unauthorized:
  assumes "fst (authorize logs r s) = None"
  shows "\<exists>ret s'. tailHandlerWs logs W r s st = (ret, s', st)"
  using assms by (cases "authorize logs r s") (auto simp: tailHandlerWs_def)

lemma route_tail:
  "route m p = Some (TailHandler, guid) \<longleftrightarrow> m ''/v2/apps/{guid}/tail'' p = Some guid"
  by (auto simp: route_def routes_def)

text \<open>How a session with a drain ends.\<close>

lemma Forward_all_done: "Forward es s = (Some None, s') \<Longrightarrow> ChClosed \<in> set es"
  by (induction es s rule: Forward.induct) (auto split: prod.splits option.splits if_splits)

text \<open>The last thing done to logyard was deleting the drain, and without an error it is gone.\<close>

definition ends_with_delete :: "'s logyard \<Rightarrow> string \<Rightarrow> 's \<Rightarrow> bool" where
  "ends_with_delete L name st \<longleftrightarrow>
     (\<exists>st0 e. DeleteDrain L name st0 = (e, st) \<and> (e = None \<longrightarrow> name \<notin> set (Drains L st)))"

lemma Stop_ends:
  assumes "\<forall>n s s'. DeleteDrain L n s = (None, s') \<longrightarrow> n \<notin> set (Drains L s')"
  shows "ends_with_delete L (drainName d) (Stop L d s)"
    and "t \<Longrightarrow> ends_with_delete L (drainName d) (lifetime_over L d t s)"
proof -
  obtain e s' where r: "DeleteDrain L (drainName d) s = (e, s')" by fastforce
  with assms have "ends_with_delete L (drainName d) s'" unfolding ends_with_delete_def by blast
  with r show "ends_with_delete L (drainName d) (Stop L d s)"
    and "t \<Longrightarrow> ends_with_delete L (drainName d) (lifetime_over L d t s)"
    by (simp_all add: Stop_def removeDrain_def lifetime_over_def)
qed

section \<open>Properties\<close>

text \<open>
  C14. Logyard's drains change only through the tail path, and only for a client that named an
  application and a token with which the cloud controller has answered for that application;
  every other request, on any path, with any token, leaves them alone.
\<close>

theorem only_authorized_tails_touch_drains:
  assumes "snd (serve_request match_path logs W upgrade r st) \<noteq> st"
  shows "\<exists>guid n ls. match_path ''/v2/apps/{guid}/tail'' (Path r) = Some guid \<and>
    guid \<noteq> [] \<and> auth_header r \<noteq> [] \<and> logs (auth_header r) guid n = Inr ls"
proof (cases "route match_path (Path r)")
  case (Some hg)
  obtain h guid where hg: "hg = (h, guid)" by fastforce
  show ?thesis
  proof (cases "h = TailHandler \<and> (\<exists>s. fst (authorize logs (request_of r guid) s) \<noteq> None)")
    case True
    then obtain s args s' where "authorize logs (request_of r guid) s = (Some args, s')"
      by (metis option.exhaust prod.collapse)
    from authorize_asks [OF this] Some hg True route_tail [of match_path "Path r" guid] show ?thesis
      by (auto simp: request_of_def)
  next
    case False
    then have "\<exists>ret s'. run_handler h logs W (request_of r guid) s st = (ret, s', st)" for s
      using tailHandlerWs_unauthorized [of logs "request_of r guid" s W st]
      by (cases h) (auto simp: run_handler_def)
    then have "snd (ServeHTTP upgrade (run_handler h logs W (request_of r guid)) st) = st"
      by (intro ServeHTTP_frame) simp
    with Some hg assms show ?thesis by (simp add: serve_request_def)
  qed
qed (use assms in \<open>simp add: serve_request_def\<close>)

lemma demo_ws_open [simp]: "\<not> closed demo_ws"
  by (simp add: demo_ws_def)

definition demo_paths :: "string \<Rightarrow> string \<Rightarrow> string option" where
  "demo_paths pat path =
     (if pat = ''/v2/apps/{guid}/tail'' \<and> path = ''/v2/apps/g1/tail'' then Some ''g1'' else None)"

lemma demo_authorized: "authorize (\<lambda>_ _ _. Inr []) demo_request demo_ws =
    (Some \<lparr>Token = ''tok'', GUID = ''g1'', Num = 5\<rparr>, demo_ws)"
  by (simp add: authorize_def ParseArguments_def demo_request_def Atoi_def HasPrefix_eval
      is_digit_def Validate_def sendRecent_def Let_def)

theorem only_authorized_tails_touch_drains_witness:
  "\<exists>ls. (\<lambda>_ _ _. Inr [] :: string + string list) ''tok'' ''g1'' (5 :: int) = Inr ls \<and>
     snd (serve_request demo_paths (\<lambda>_ _ _. Inr []) demo_session (Inr demo_ws)
       \<lparr>Path = ''/v2/apps/g1/tail'', auth_header = ''tok'', num_value = ''5''\<rparr> []) \<noteq> []"
proof -
  let ?r = "\<lparr>Path = ''/v2/apps/g1/tail'', auth_header = ''tok'', num_value = ''5''\<rparr>"
  have "request_of ?r ''g1'' = demo_request" by (simp add: request_of_def demo_request_def)
  then have "snd (serve_request demo_paths (\<lambda>_ _ _. Inr []) demo_session (Inr demo_ws) ?r []) \<noteq> []"
    by (simp add: serve_request_def route_def routes_def demo_paths_def ServeHTTP_def run_handler_def
        tailHandlerWs_def demo_authorized demo_session_def NewAppLogDrain_def drain_Start_def
        addDrain_def demo_logyard_def channel_def Let_def)
  with only_authorized_tails_touch_drains [OF this] show ?thesis by auto
qed

text \<open>
  C20. A tail session cleans up after itself: when its handler has returned, whether the drain could
  not be started, the client went away or the lifetime was over, the last thing done to logyard was
  deleting the drain, and unless that returned an error, which the code logs and nothing more, no drain
  of its name is left.  The line server is not killed by anything else than the session.
\<close>

theorem session_leaves_no_drain:
  assumes "\<forall>n s s'. DeleteDrain (api W) n s = (None, s') \<longrightarrow> n \<notin> set (Drains (api W) s')"
    and "authorize logs r s = (Some args, s1)"
    and "NewAppLogDrain (new_server W) (duration W) (GUID args) = Inr d"
    and "ChClosed \<in> set (events W) \<longrightarrow> timed_out W"
    and "tailHandlerWs logs W r s st = (True, s', st')"
  shows "\<exists>st0 e. DeleteDrain (api W) (drainName d) st0 = (e, st') \<and>
    (e = None \<longrightarrow> drainName d \<notin> set (Drains (api W) st'))"
proof -
  obtain ch err st1 where start: "drain_Start (api W) (local_ip W) d (events W) st = ((ch, err), st1)"
    by (metis prod.collapse)
  let ?s = "case err of None \<Rightarrow> s1 | Some e \<Rightarrow> Fatalf (''Unable to start drain: '' @ e) s1"
  obtain res s2 where f: "Forward (channel ch (events W)) ?s = (res, s2)" by fastforce
  have ch: "ch = Some (events W) \<or> ch = None"
    using start by (auto simp: drain_Start_def split: prod.splits option.splits)
  note run = assms(5) [unfolded tailHandlerWs_def assms(2), simplified, unfolded assms(3), simplified,
      unfolded start Let_def, simplified, unfolded f]
  have "ends_with_delete (api W) (drainName d) st'"
  proof (cases res)
    case None
    with run show ?thesis by simp
  next
    case (Some r)
    then show ?thesis
    proof (cases r)
      case None
      with Some f have "ChClosed \<in> set (channel ch (events W))" using Forward_all_done by blast
      with ch have "ch \<noteq> None" "timed_out W"
        using assms(4) by (auto simp: channel_def is_second_def)
      with run Some None Stop_ends(2) [OF assms(1)] show ?thesis by auto
    next
      case (Some e)
      with run \<open>res = Some r\<close> Stop_ends(1) [OF assms(1)] show ?thesis by auto
    qed
  qed
  then show ?thesis by (simp add: ends_with_delete_def)
qed

theorem session_leaves_no_drain_witness:
  "\<exists>s' st'. tailHandlerWs (\<lambda>_ _ _. Inr []) (demo_session\<lparr>events := [ChLine ''a'', ChClosed], timed_out := True\<rparr>)
       demo_request demo_ws [] = (True, s', st') \<and>
     ''tmp.applog_endpoint.g1'' \<notin> set (Drains demo_logyard st')"
proof -
  let ?W = "demo_session\<lparr>events := [ChLine ''a'', ChClosed], timed_out := True\<rparr>"
  let ?d = "\<lparr>appGUID = ''g1'', port = 7, lifetime = 9, drainName = ''tmp.applog_endpoint.g1''\<rparr>"
  have law: "\<forall>n s s'. DeleteDrain (api ?W) n s = (None, s') \<longrightarrow> n \<notin> set (Drains (api ?W) s')"
    by (auto simp: demo_session_def demo_logyard_def)
  have d: "NewAppLogDrain (new_server ?W) (duration ?W) (GUID \<lparr>Token = ''tok'', GUID = ''g1'', Num = 5\<rparr>) = Inr ?d"
    by (simp add: NewAppLogDrain_def demo_session_def DRAIN_PREFIX_def)
  obtain s' where "Forward [ChLine ''a'', ChClosed] demo_ws = (Some None, s')"
    by (simp add: demo_ws_def Send_def ws_send_def)
  then obtain st' where t: "tailHandlerWs (\<lambda>_ _ _. Inr []) ?W demo_request demo_ws [] = (True, s', st')"
    by (simp add: tailHandlerWs_def demo_authorized NewAppLogDrain_def drain_Start_def addDrain_def
        channel_def demo_session_def demo_logyard_def Let_def del: Forward.simps)
  obtain st0 e where "DeleteDrain (api ?W) (drainName ?d) st0 = (e, st')"
    "e = None \<longrightarrow> drainName ?d \<notin> set (Drains (api ?W) st')"
    using session_leaves_no_drain [OF law demo_authorized d _ t] by auto
  with t show ?thesis by (auto simp: demo_session_def demo_logyard_def)
qed

end
