(* ===== verification/Spec2Isabelle.thy ===== *)
theory Spec2Isabelle
  imports Seeker Tailers Offset_Book Races Apptail_Main Published Endpoint_Server
begin

text \<open>
  A verification library for logyard-apps: the programs that carry the logs of a node of a Stackato
  cloud to the logyard message broker.

  \<^bold>\<open>The programs.\<close>
  \<open>apptail\<close> is told by NATS which containers run on its node, tails their log files or docker streams,
  publishes every line as a record of the application's log, and remembers in a state file how far it
  has read.  \<open>systail\<close> does the same for the log files of the system; \<open>logyard_sieve\<close> reads its records
  and turns the lines it recognises into events.  \<open>docker_events\<close> publishes what docker reports as
  events.  \<open>apptail\<close> copies timeline events back into the logs of the applications.  \<open>applog_endpoint\<close>
  shows a client the log of its application through a websocket, by way of a temporary drain of
  logyard.

  \<^bold>\<open>How Go is modelled.\<close>
  A computation that may panic, end the process or block for good has the type \<open>'a go\<close>, a sum whose
  left side is \<open>stop\<close>; an \<open>error\<close> is a \<open>string option\<close>.  An \<open>int64\<close> is a \<open>64 word\<close>, a string a list of
  bytes, a map a partial function or, where its order or its keys matter, an association list.  The
  order of a \<open>range\<close> over a map is a parameter.  Goroutines are steps of a relation, one step per
  stretch of code between two points where another goroutine may act.  Code outside the repository
  is a parameter: the tail library is the lines it delivers and the offset \<open>Tell\<close> reports, the docker
  daemon the answers to the requests, the regular expressions the functions of \<open>regexps_api\<close>.  The
  broker is the list of what was published.

  \<^bold>\<open>The theories\<close>, from the bottom:
  \<^item> \<open>Prelude\<close>: the \<open>go\<close> values, loops over them, ranges, machine integers, the collections \<open>go_simps\<close>
    and \<open>op_simps\<close>; \<open>Go_Strings\<close>, \<open>Utf8\<close>, \<open>Regex_Alt\<close>, \<open>Template\<close> and \<open>Json\<close>: the parts of the standard
    library the code uses.
  \<^item> \<open>Storage\<close> (\<open>apptail/storage/gob_handler.go\<close>, \<open>fake_gob_handler.go\<close>): the interfaces
    \<open>tail_storage\<close> and \<open>durable_storage\<close> and the file and its stand-in as their interpretations.
    A write takes \<open>writeLock\<close>, truncates the file and fills it in two parts, each a piece of its own.
    \<open>Tracker\<close> (\<open>tail_tracker.go\<close>): the operations, with the mutex as a field; no call blocks, what is
    committed survives a restart.  \<open>Offset_Book\<close>: the abstract book of offsets, and the refinement of
    it by the tracker for every sequence of calls and restarts.  \<open>Commits\<close>: commits of several
    goroutines interleaved, each encoding under the mutex and writing after it, piece by piece under
    \<open>writeLock\<close>; what the state file holds at any moment, and that a removed container stays forgotten
    through crashes.
  \<^item> \<open>Common\<close> (\<open>common\<close>, \<open>sieve/event.go\<close>), \<open>App_Log\<close> (\<open>apptail/message\<close>, \<open>apptail/pubchannel\<close>,
    \<open>apptail/event\<close>): the records, the channel that publishes events, the copy of timeline events.  A
    number that passes through an \<open>interface{}\<close> is a \<open>float64\<close> and from a million on is written with an
    exponent.
  \<^item> \<open>Docker_Events\<close>, \<open>Docker_Main\<close> (\<open>docker_events\<close>) and \<open>Docker_Listener\<close>
    (\<open>apptail/docker/listener.go\<close>): the requests with their retries, the program, and the goroutines
    that wait for a container to stop.
  \<^item> \<open>Log_Files\<close> and \<open>Instance\<close> (\<open>apptail/instance.go\<close>, \<open>config.go\<close>, \<open>apptail/docker/env.go\<close>, \<open>util.go\<close>):
    which files are tailed and from where, the bucket that limits the rate, the loop over the lines.
    \<open>Tailers\<close>: these loops interleaved with the pieces of the commits, and what a crash between any two
    steps leaves.  \<open>Seeker\<close> (\<open>apptail/util/seeker.go\<close>): the wrapper of a docker stream, with its lock; a
    call on the buffer has a begin and an end, and after a race nothing is known of the buffer.  \<open>Apptail_Main\<close> (\<open>apptail/cmd/apptail/main.go\<close>, \<open>apptail/util\<close>, \<open>common/cleanup.go\<close>):
    start-up, the UID, the guard of the subscription.
  \<^item> \<open>Sieve_Match\<close>, \<open>Sieve_Handler\<close>, \<open>Sieve_Parser\<close> (\<open>sieve\<close>) and \<open>Systail\<close> (\<open>systail\<close>,
    \<open>sieve/cmd/logyard_sieve\<close>): the matcher, the handlers behind the interface \<open>event_handler\<close>, the
    parser, and the two programs one after the other.
  \<^item> \<open>Endpoint\<close> and \<open>Endpoint_Server\<close> (\<open>applog_endpoint\<close>): arguments, stream, drains, handlers, routes
    and registration.
  \<^item> \<open>Races\<close>: the locking of the tracker, the listener, the started instances and the stream wrapper,
    with the interface \<open>locked_operations\<close>.  \<open>Published\<close>: the type of the records on the broker, which is
    what their subscribers need to decode them, and the interface \<open>publisher\<close> of the operations that
    keep it.

  \<^bold>\<open>What the lemmas show.\<close>
  Every operation has its value on every branch, as a closed form or by its own equations; the
  components have an invariant that each step keeps (\<open>ready\<close>, \<open>holding\<close>, \<open>forgotten\<close>, \<open>tail_inv\<close>, \<open>locked\<close>,
  \<open>announced\<close>, \<open>wf_listener\<close>, \<open>starter_inv\<close>, \<open>parser_ok\<close>, \<open>locking\<close>, \<open>typed_broker\<close>).  The sequential versions of the
  operations are runs of the interleaved ones (\<open>Remove_is_a_run\<close>, \<open>readFromTail_is_a_run\<close>).  The
  properties are the theorems with a number.  Some describe a defect; each of these holds of the code
  as it is.

  \<^bold>\<open>Bounds and termination.\<close>
  No definition uses fuel.  The retries of the docker requests end by a measure; the loop of \<open>Seek\<close> is
  a partial function that is shown to return for every buffer shorter than \<open>2 ^ 63\<close> bytes, which is
  every buffer there is.  A goroutine that waits for input is run over the list of what it will
  receive; \<open>Blocked\<close>, or a loop that has not ended, is its value when the list is used up.

  \<^bold>\<open>Not modelled.\<close>
  Log calls (they print, among them \<open>dumpState\<close>, of which \<open>Races\<close> keeps the access); the internals of
  the broker, of NATS, of the tail library and its rate limiter, of gob and of the regular
  expressions; what a data race does in Go beyond leaving the buffer undefined; numbers in JSON that are
  not whole; the subscription of \<open>apptail\<close> and its listener at work during the start-up clean-up;
  \<open>applog_endpoint/config/shim.go\<close>, whose functions forward to a library; the getters of
  the loaded configurations, which return the value the model passes as an argument; build files
  and the configuration of the supervisor.  Memory is modelled where it is shared: values the
  tracker hands out are copies in the code as well.
\<close>

section \<open>Reading on after a restart\<close>

text \<open>
  C3. What was published before a commit is not published again: when the records a tailer has
  received are published and the timer has committed, a new process on the state file starts tailing
  that file where the line of the last record ends or, when \<open>Tell\<close> was ahead, where the line after it
  ends; so at most that one line is passed over.
\<close>

theorem restart_resumes_after_last_line:
  assumes "ready file_storage fs_healthy tr" and "getShortDockerId inst = Inr k"
    and "offset_of tr k f \<noteq> None" and "recs \<noteq> []" and "\<And>loc. open_tail f loc = None"
    and "tells_near pos line_no tell (length recs)"
    and "readFromTail N inst name f (line_events (from_tail tell recs)) tr pub = Inr (ended, tr1, pub1)"
    and "submission_timer [Tick] tr1 = Inr tr2"
  shows "pub1 = pub @ map (app_log_entry N inst name) recs \<and>
    (\<exists>u. LoadTailers (NewTracker file_storage (rebooted (backend tr2)) dbg) = Inr u \<and>
      (\<exists>e \<in> {line_no (length recs - 1) + 1, line_no (length recs - 1) + 2}.
        tailFile F c open_tail inst name f u = Inr (Tailing (pos e, SEEK_SET), [], u)))"
proof -
  let ?ls = "from_tail tell recs"
  from assms(7) readFromTail_lines [OF assms(2), of N name f ?ls "[]" tr pub]
  have r: "tr1 = updates k f ?ls tr" "pub1 = pub @ map (app_log_entry N inst name \<circ> fst) ?ls"
    by auto
  then have "ready file_storage fs_healthy tr1" using assms(1) by simp
  from fsd.Commit_durable [OF this] assms(8) have tr2: "ready file_storage fs_healthy tr2"
    and saved: "\<And>e. FileStorage_Load e (backend tr2) = Inr ((None, e\<lparr>Instances := Instances e ++ insts tr1\<rparr>), backend tr2)"
    by auto
  from tr2 have "rebooted (backend tr2) = backend tr2"
    by (simp add: ready_def fs_healthy_def rebooted_def NewFileStorage_def)
  then obtain u where u: "LoadTailers (NewTracker file_storage (rebooted (backend tr2)) dbg) = Inr u"
    "Cached u = Cached tr1"
    using saved by (simp add: LoadTailers_def NewTracker_def)
  from u(1) have "\<not> mux u" by (rule LoadTailers_frame)
  moreover have "offset_of u k f = Some (fst (snd (last ?ls)))"
    using offset_of_updates [OF assms(3), of ?ls] assms(4) u(2) r(1) by (simp add: offset_of_def)
  ultimately have "tailFile F c open_tail inst name f u = Inr (Tailing (fst (snd (last ?ls)), SEEK_SET), [], u)"
    using assms(5) by (intro tailFile_known [OF assms(2)])
  moreover have "\<exists>e \<in> {line_no (length recs - 1) + 1, line_no (length recs - 1) + 2}. fst (snd (last ?ls)) = pos e"
    using assms(4,6) by (auto simp: last_conv_nth tells_near_def dest!: spec [of _ "length recs - 1"])
  moreover have "pub1 = pub @ map (app_log_entry N inst name) recs"
    using r(2) by (simp flip: map_map)
  ultimately show ?thesis using u(1) by auto
qed

theorem restart_resumes_after_last_line_witness:
  "\<exists>tr1 tr2 u. readFromTail demo_node demo_instance ''a'' ''/c1/x''
       (line_events (from_tail (t_tell demo_tailer) [demo_line ''one''])) demo_known [] =
       Inr ((False, []), tr1, [app_log_entry demo_node demo_instance ''a'' (demo_line ''one'')]) \<and>
     submission_timer [Tick] tr1 = Inr tr2 \<and>
     LoadTailers (NewTracker file_storage (rebooted (backend tr2)) False) = Inr u \<and>
     (\<exists>e \<in> {1, 2}. tailFile demo_fsys \<lparr>MaxRecordSize = 0, MaxLinesPerSecond = 0, MaxLinesBurst = 0, FileSizeLimit = 16,
        PersistPositionIntervalSeconds = 0\<rparr> (\<lambda>_ _. None) demo_instance ''a'' ''/c1/x'' u =
       Inr (Tailing (demo_pos e, SEEK_SET), [], u))"
proof -
  let ?recs = "[demo_line ''one'']"
  let ?ls = "from_tail (t_tell demo_tailer) ?recs"
  let ?tr = "updates ''0123456789ab'' ''/c1/x'' ?ls demo_known"
  let ?c = "\<lparr>MaxRecordSize = 0, MaxLinesPerSecond = 0, MaxLinesBurst = 0, FileSizeLimit = 16,
        PersistPositionIntervalSeconds = 0\<rparr>"
  have r: "readFromTail demo_node demo_instance ''a'' ''/c1/x'' (line_events ?ls) demo_known [] =
      Inr ((False, []), ?tr, [app_log_entry demo_node demo_instance ''a'' (demo_line ''one'')])"
    by (simp add: from_tail_def publishLine_ok updates_def)
  obtain tr2 where c: "submission_timer [Tick] ?tr = Inr tr2"
    using fsd.Commit_durable [of ?tr] by auto
  have o: "offset_of demo_known ''0123456789ab'' ''/c1/x'' \<noteq> None" by simp
  have t: "tells_near demo_pos id (t_tell demo_tailer) (length ?recs)"
    by (simp add: tells_near_def demo_pos_def)
  from restart_resumes_after_last_line [where open_tail = "\<lambda>_ _. None" and F = demo_fsys and c = ?c and dbg = False,
      OF demo_known_simps(3) demo_instance_id o _ _ t r c]
  obtain u where "LoadTailers (NewTracker file_storage (rebooted (backend tr2)) False) = Inr u"
    "\<exists>e \<in> {1, 2}. tailFile demo_fsys ?c (\<lambda>_ _. None) demo_instance ''a'' ''/c1/x'' u = Inr (Tailing (demo_pos e, SEEK_SET), [], u)"
    by (auto simp: numeral_2_eq_2)
  with r c show ?thesis by blast
qed

end
